theory Spec2Isabelle
  imports Complex_Main "HOL-Library.Word" "HOL-Library.Sublist" "HOL-Library.AList"
begin

section \<open>Screenshot comparator (src/screenshot/compare.ts)\<close>

text \<open>
  A decoded image as \<open>sharp\<close> hands it to \<open>compareScreenshots\<close>: the metadata fields the
  function reads and the raw, channel-interleaved pixel buffer. \<open>channels\<close> is optional in
  the metadata (\<open>baselineMeta.channels || 3\<close>); the buffer holds unsigned bytes.
\<close>

type_synonym byte = "8 word"

record RasterImage =
  width :: nat
  height :: nat
  channels :: "nat option"
  pixels :: "byte list"

text \<open>
  A JavaScript number as far as the comparator needs it: a finite value, \<open>Infinity\<close> or
  NaN. \<open>diffPixels / totalPixels\<close> is NaN for 0 / 0 and \<open>Infinity\<close> for a positive count
  over 0; both stay what they are when multiplied by 100, and \<open>x <= threshold\<close> is false
  for both. Finite values are exact rationals; the rounding of doubles is not modelled.
\<close>

datatype jsnum = Num rat | Infinity | NaN

fun js_div :: "nat \<Rightarrow> nat \<Rightarrow> jsnum" where
  "js_div a b =
     (if b = 0 then (if a = 0 then NaN else Infinity) else Num (of_nat a / of_nat b))"

text \<open>\<open>x * 100\<close>\<close>

fun js_times100 :: "jsnum \<Rightarrow> jsnum" where
  "js_times100 (Num x) = Num (x * 100)"
| "js_times100 Infinity = Infinity"
| "js_times100 NaN = NaN"

fun js_le :: "jsnum \<Rightarrow> rat \<Rightarrow> bool" where
  "js_le (Num x) t = (x \<le> t)"
| "js_le Infinity t = False"
| "js_le NaN t = False"

record ComparisonResult =
  match :: bool
  difference :: jsnum
  diffImagePath :: "string option"
  diffImageData :: "RasterImage option"

text \<open>\<open>buf[k]\<close>: a read past the end of a buffer yields \<open>undefined\<close>.\<close>

definition byteAt :: "byte list \<Rightarrow> nat \<Rightarrow> byte option" where
  "byteAt buf k = (if k < length buf then Some (buf ! k) else None)"

text \<open>
  \<open>Math.abs(baselineBuffer[i + c] - currentBuffer[i + c]) > 5\<close>. With an \<open>undefined\<close>
  operand the difference is NaN and the test is false.
\<close>

definition channelDiffers :: "byte list \<Rightarrow> byte list \<Rightarrow> nat \<Rightarrow> bool" where
  "channelDiffers b c k =
     (case (byteAt b k, byteAt c k) of
        (Some x, Some y) \<Rightarrow> \<bar>int (unat x) - int (unat y)\<bar> > 5
      | _ \<Rightarrow> False)"

text \<open>The inner loop over the channels of the pixel at offset \<open>i\<close>, leaving at the first hit.\<close>

definition pixelDiff :: "nat \<Rightarrow> byte list \<Rightarrow> byte list \<Rightarrow> nat \<Rightarrow> bool" where
  "pixelDiff ch b c i = list_ex (\<lambda>k. channelDiffers b c (i + k)) [0..<ch]"

text \<open>
  Writes to the diff buffer. A write past the end of a \<open>Buffer\<close> is ignored, as
  \<open>list_update\<close> does; storing \<open>undefined\<close> stores 0.
\<close>

definition paintRed :: "nat \<Rightarrow> byte list \<Rightarrow> nat \<Rightarrow> byte list" where
  "paintRed ch d i =
     (let d1 = d[i := 255]; d2 = d1[i + 1 := 0]; d3 = d2[i + 2 := 0]
      in if ch = 4 then d3[i + 3 := 255] else d3)"

definition keepPixel :: "nat \<Rightarrow> byte list \<Rightarrow> byte list \<Rightarrow> nat \<Rightarrow> byte list" where
  "keepPixel ch c d i =
     fold (\<lambda>k acc. acc[i + k := (case byteAt c (i + k) of Some v \<Rightarrow> v | None \<Rightarrow> 0)])
       [0..<ch] d"

text \<open>
  The outer loop \<open>for (let i = 0; i < baselineBuffer.length; i += channels)\<close>, carrying
  \<open>diffPixels\<close> and the diff buffer. \<open>channels\<close> is at least 1 at the call (see
  \<open>effectiveChannels\<close>); the guard \<open>0 < ch\<close> only makes the recursion total.
\<close>

function compareLoop ::
  "nat \<Rightarrow> byte list \<Rightarrow> byte list \<Rightarrow> nat \<Rightarrow> nat \<Rightarrow> byte list \<Rightarrow> nat \<times> byte list" where
  "compareLoop ch b c i diffPixels d =
     (if i < length b \<and> 0 < ch then
        (if pixelDiff ch b c i
         then compareLoop ch b c (i + ch) (diffPixels + 1) (paintRed ch d i)
         else compareLoop ch b c (i + ch) diffPixels (keepPixel ch c d i))
      else (diffPixels, d))"
  by pat_completeness auto
termination
  by (relation "measure (\<lambda>(ch, b, c, i, n, d). length b - i)") auto

declare compareLoop.simps [simp del]

text \<open>\<open>baselineMeta.channels || 3\<close>: \<open>undefined\<close> and 0 both give 3.\<close>

definition effectiveChannels :: "nat option \<Rightarrow> nat" where
  "effectiveChannels m = (case m of None \<Rightarrow> 3 | Some n \<Rightarrow> if n = 0 then 3 else n)"

text \<open>
  \<open>compareScreenshots\<close> on two decoded images. \<open>diffDir\<close> is \<open>DIFF_DIR\<close> and \<open>stamp\<close> the
  value of \<open>generateTimestamp()\<close>; the diff image is the raw buffer with the metadata
  given to \<open>sharp\<close> (PNG encoding and the file write keep the same content). A failure
  to create the directory, to decode an image or to write the file is rethrown by the
  function and gives no result; it is not part of the model.
\<close>

definition compareScreenshots ::
  "string \<Rightarrow> string \<Rightarrow> RasterImage \<Rightarrow> RasterImage \<Rightarrow> rat \<Rightarrow> ComparisonResult" where
  "compareScreenshots diffDir stamp baseline current threshold =
     (if width baseline \<noteq> width current \<or> height baseline \<noteq> height current then
        \<lparr>match = False, difference = Num 100, diffImagePath = None, diffImageData = None\<rparr>
      else
        (let baselineBuffer = pixels baseline;
             currentBuffer = pixels current;
             totalPixels = width baseline * height baseline;
             ch = effectiveChannels (channels baseline);
             diffBuffer = replicate (length baselineBuffer) 0;
             (diffPixels, diffBuffer') = compareLoop ch baselineBuffer currentBuffer 0 0 diffBuffer;
             differencePercentage = js_times100 (js_div diffPixels totalPixels);
             m = js_le differencePercentage threshold
         in if \<not> m then
              \<lparr>match = m, difference = differencePercentage,
               diffImagePath = Some (diffDir @ ''/diff_'' @ stamp @ ''.png''),
               diffImageData = Some \<lparr>width = width baseline, height = height baseline,
                 channels = Some ch, pixels = diffBuffer'\<rparr>\<rparr>
            else
              \<lparr>match = m, difference = differencePercentage,
               diffImagePath = None, diffImageData = None\<rparr>))"

section \<open>Error aggregator (class ErrorAggregator, src/debugger/error-aggregator.ts)\<close>

subsection \<open>Error events and notifications (src/debugger/types.ts)\<close>

text \<open>
  \<open>Date\<close> values are milliseconds since the epoch. \<open>count\<close> is the occurrence counter
  that \<open>trackWebGLError\<close> sets to 1 and increments, a natural number. Field names shared
  by the two error types carry a suffix; of the optional \<open>context\<close> object of a
  \<open>WebGLError\<close>, which the aggregator never reads, only \<open>functionName\<close> is kept.
  Strings are lists of 8-bit characters.
\<close>

datatype ShaderErrorType = shader_compilation | program_linking

datatype ShaderType = vertex | fragment

record WebGLError =
  id_w :: string
  message :: string
  stackTrace :: "string option"
  timestamp_w :: int
  count :: nat
  url_w :: "string option"
  functionName :: "string option"

record ShaderCompilationError =
  id_s :: string
  type_s :: ShaderErrorType
  shaderType :: "ShaderType option"
  source :: "string option"
  errorLog :: string
  lineNumber :: "nat option"
  columnNumber :: "nat option"
  timestamp_s :: int
  url_s :: "string option"
  programId :: "string option"
  shaderId :: "string option"

text \<open>The union \<open>WebGLError | ShaderCompilationError\<close>.\<close>

datatype RawError = Runtime WebGLError | Shader ShaderCompilationError

datatype WebGLNotificationType =
  webgl_error_shader_compilation | webgl_error_program_linking | webgl_error_general

datatype Severity = severity_error | severity_warning | severity_info

text \<open>
  The error object of a notification built by the aggregator: either the literal
  \<open>{id, message, timestamp, count}\<close>, whose message is \<open>undefined\<close> (\<open>None\<close>) when
  \<open>Array.from(uniqueMessages)[0]\<close> reads an empty set, or a shader error with its log
  replaced.
\<close>

record AggregatedError =
  id_a :: string
  message_a :: "string option"
  timestamp_a :: int
  count_a :: nat

datatype NotificationError = General AggregatedError | ShaderLog ShaderCompilationError

record WebGLNotification =
  type_n :: WebGLNotificationType
  timestamp_n :: int
  error_n :: NotificationError
  severity :: Severity

record ErrorBatch =
  errors :: "RawError list"
  firstSeen :: int
  lastSeen :: int
  totalCount :: nat

subsection \<open>Strings: template literals, split, join, Set\<close>

text \<open>
  Decimal rendering of a number inside a template literal. Counts and clock readings
  are exact integers (below \<open>10^21\<close> JavaScript prints them in this form).
\<close>

function showNat :: "nat \<Rightarrow> string" where
  "showNat n =
     (if n < 10 then [''0123456789'' ! n]
      else showNat (n div 10) @ [''0123456789'' ! (n mod 10)])"
  by pat_completeness auto
termination
  by (relation "measure id") auto

declare showNat.simps [simp del]

definition showInt :: "int \<Rightarrow> string" where
  "showInt i = (if i < 0 then ''-'' @ showNat (nat (- i)) else showNat (nat i))"

text \<open>\<open>s.split(sep)\<close> for a one-character separator: never the empty array.\<close>

fun split :: "char \<Rightarrow> string \<Rightarrow> string list" where
  "split sep [] = [[]]"
| "split sep (c # cs) =
     (if c = sep then [] # split sep cs
      else (case split sep cs of [] \<Rightarrow> [[c]] | p # ps \<Rightarrow> (c # p) # ps))"

fun join :: "string \<Rightarrow> string list \<Rightarrow> string" where
  "join sep [] = []"
| "join sep [x] = x"
| "join sep (x # y # ys) = x @ sep @ join sep (y # ys)"

text \<open>\<open>new Set(xs)\<close> read back in iteration order: first occurrences, in order.\<close>

fun uniq :: "'a list \<Rightarrow> 'a list" where
  "uniq [] = []"
| "uniq (x # xs) = x # uniq (filter (\<lambda>y. y \<noteq> x) xs)"

text \<open>\<open>xs[0]\<close>, \<open>undefined\<close> on the empty array.\<close>

fun first :: "'a list \<Rightarrow> 'a option" where
  "first [] = None"
| "first (x # xs) = Some x"

subsection \<open>Group signature: getErrorKey and extractErrorType\<close>

text \<open>
  The character classes of the two regular expressions, on 8-bit characters:
  \<open>[A-Z_]\<close>, \<open>\w\<close>, \<open>\s\<close> (tab, line feed, vertical tab, form feed, carriage return,
  space, no-break space) and the line terminators that \<open>.\<close> refuses.
\<close>

definition isCodeChar :: "char \<Rightarrow> bool" where
  "isCodeChar c = (let n = (of_char c :: nat) in (65 \<le> n \<and> n \<le> 90) \<or> n = 95)"

definition isWordChar :: "char \<Rightarrow> bool" where
  "isWordChar c =
     (let n = (of_char c :: nat)
      in (65 \<le> n \<and> n \<le> 90) \<or> (97 \<le> n \<and> n \<le> 122) \<or> (48 \<le> n \<and> n \<le> 57) \<or> n = 95)"

definition isSpaceChar :: "char \<Rightarrow> bool" where
  "isSpaceChar c = (let n = (of_char c :: nat) in (9 \<le> n \<and> n \<le> 13) \<or> n = 32 \<or> n = 160)"

definition isLineTerminator :: "char \<Rightarrow> bool" where
  "isLineTerminator c = (let n = (of_char c :: nat) in n = 10 \<or> n = 13)"

text \<open>
  \<open>:\s*([A-Z_]+):\s*(\w+)\<close> matched at the start of a string. Each greedy run is followed
  by a character outside its class, so giving characters back never helps and the
  longest runs are the only candidates.
\<close>

definition matchTail :: "string \<Rightarrow> (string \<times> string) option" where
  "matchTail s =
     (case s of
        [] \<Rightarrow> None
      | c # r \<Rightarrow>
          if c \<noteq> CHR '':'' then None
          else
            (let r1 = dropWhile isSpaceChar r;
                 code = takeWhile isCodeChar r1;
                 r2 = dropWhile isCodeChar r1
             in if code = [] then None
                else
                  (case r2 of
                     [] \<Rightarrow> None
                   | c2 # r3 \<Rightarrow>
                       if c2 \<noteq> CHR '':'' then None
                       else
                         (let r4 = dropWhile isSpaceChar r3;
                              operation = takeWhile isWordChar r4
                          in if operation = [] then None else Some (code, operation)))))"

text \<open>\<open>.*?\<close> followed by the tail: the shortest skip first, never across a line end.\<close>

fun matchLazy :: "string \<Rightarrow> (string \<times> string) option" where
  "matchLazy [] = None"
| "matchLazy (c # r) =
     (case matchTail (c # r) of
        Some m \<Rightarrow> Some m
      | None \<Rightarrow> if isLineTerminator c then None else matchLazy r)"

text \<open>\<open>message.match(/WebGL.*?:\s*([A-Z_]+):\s*(\w+)/)\<close>: the leftmost start that matches.\<close>

fun structuredMatch :: "string \<Rightarrow> (string \<times> string) option" where
  "structuredMatch [] = None"
| "structuredMatch (c # r) =
     (case (if prefix ''WebGL'' (c # r) then matchLazy (drop 5 (c # r)) else None) of
        Some m \<Rightarrow> Some m
      | None \<Rightarrow> structuredMatch r)"

text \<open>\<open>message.match(/([A-Z_]+)/)\<close>: the leftmost, longest run of \<open>[A-Z_]\<close>.\<close>

definition simpleMatch :: "string \<Rightarrow> string option" where
  "simpleMatch s =
     (let tok = takeWhile isCodeChar (dropWhile (\<lambda>c. \<not> isCodeChar c) s)
      in if tok = [] then None else Some tok)"

definition extractErrorType :: "string \<Rightarrow> string" where
  "extractErrorType msg =
     (case structuredMatch msg of
        Some (code, operation) \<Rightarrow> code @ '':'' @ operation
      | None \<Rightarrow> (case simpleMatch msg of Some tok \<Rightarrow> tok | None \<Rightarrow> ''UNKNOWN''))"

fun showShaderErrorType :: "ShaderErrorType \<Rightarrow> string" where
  "showShaderErrorType shader_compilation = ''shader_compilation''"
| "showShaderErrorType program_linking = ''program_linking''"

fun showShaderType :: "ShaderType \<Rightarrow> string" where
  "showShaderType vertex = ''vertex''"
| "showShaderType fragment = ''fragment''"

text \<open>\<open>shaderType || 'program'\<close>\<close>

definition shaderTypeOrProgram :: "ShaderCompilationError \<Rightarrow> string" where
  "shaderTypeOrProgram e = (case shaderType e of Some t \<Rightarrow> showShaderType t | None \<Rightarrow> ''program'')"

definition getErrorKey :: "RawError \<Rightarrow> string" where
  "getErrorKey e =
     (case e of
        Shader se \<Rightarrow> ''shader:'' @ showShaderErrorType (type_s se) @ '':'' @ shaderTypeOrProgram se
      | Runtime we \<Rightarrow> ''webgl:'' @ extractErrorType (message we))"

subsection \<open>Aggregator state, notification sink and exceptions\<close>

text \<open>
  The private fields of \<open>ErrorAggregator\<close>, followed by what the calls do to the outside:
  \<open>sink\<close> lists every notification handed to \<open>server.notification\<close>, oldest first, with
  whether the transport accepted it, and \<open>console\<close> the lines written by \<open>console.log\<close>
  and \<open>console.error\<close>. The \<open>Map\<close> \<open>errorBatch\<close> is an association list in insertion
  order; a timer field is \<open>True\<close> while it holds a pending timeout. The host is
  single-threaded: a call or a timer callback is modelled as running to its end, with
  the clock read once, before the next one starts (no interleaving at an \<open>await\<close>).
\<close>

record ErrorAggregator =
  batchInterval :: nat
  maxBatchSize :: nat
  collectionDuration :: nat
  maxErrorsBeforeStop :: nat
  errorBatch :: "(string \<times> ErrorBatch) list"
  batchTimer :: bool
  collectionTimer :: bool
  isProcessing :: bool
  isActive :: bool
  totalErrorCount :: nat
  collectionStartTime :: "int option"
  sink :: "(WebGLNotification \<times> bool) list"
  console :: "string list"

text \<open>
  The transport is a parameter: \<open>transport k n\<close> tells whether the \<open>k\<close>-th call of
  \<open>server.notification\<close>, with notification \<open>n\<close>, succeeds; otherwise it throws.
\<close>

type_synonym Transport = "nat \<Rightarrow> WebGLNotification \<Rightarrow> bool"

datatype Exception = TransportError | TypeError

text \<open>
  The outcome of a call: the exception leaving it, if any, and the state it leaves.
  \<open>andThen\<close> is sequencing (\<open>await\<close> included): an exception skips what follows.
\<close>

type_synonym Outcome = "Exception option \<times> ErrorAggregator"

definition andThen :: "Outcome \<Rightarrow> (ErrorAggregator \<Rightarrow> Outcome) \<Rightarrow> Outcome" where
  "andThen r f = (case r of (None, s) \<Rightarrow> f s | (Some e, s) \<Rightarrow> (Some e, s))"

text \<open>The constructor, with the defaults of \<open>config.x ?? default\<close>.\<close>

definition createErrorAggregator ::
  "nat option \<Rightarrow> nat option \<Rightarrow> nat option \<Rightarrow> nat option \<Rightarrow> ErrorAggregator" where
  "createErrorAggregator bi mbs cd mebs =
     \<lparr>batchInterval = (case bi of Some v \<Rightarrow> v | None \<Rightarrow> 1000),
      maxBatchSize = (case mbs of Some v \<Rightarrow> v | None \<Rightarrow> 50),
      collectionDuration = (case cd of Some v \<Rightarrow> v | None \<Rightarrow> 10000),
      maxErrorsBeforeStop = (case mebs of Some v \<Rightarrow> v | None \<Rightarrow> 1000),
      errorBatch = [], batchTimer = False, collectionTimer = False,
      isProcessing = False, isActive = False, totalErrorCount = 0,
      collectionStartTime = None, sink = [], console = []\<rparr>"

text \<open>\<open>server.notification\<close> itself: the attempt is recorded, a refusal throws.\<close>

definition server_notification :: "Transport \<Rightarrow> WebGLNotification \<Rightarrow> ErrorAggregator \<Rightarrow> Outcome" where
  "server_notification transport n s =
     (if transport (length (sink s)) n
      then (None, s\<lparr>sink := sink s @ [(n, True)]\<rparr>)
      else (Some TransportError, s\<lparr>sink := sink s @ [(n, False)]\<rparr>))"

text \<open>\<open>sendWebGLNotification\<close> (src/server.ts): \<open>try { await ... } catch { console.error }\<close>.\<close>

definition sendWebGLNotification :: "Transport \<Rightarrow> WebGLNotification \<Rightarrow> ErrorAggregator \<Rightarrow> Outcome" where
  "sendWebGLNotification transport n s =
     (case server_notification transport n s of
        (None, s') \<Rightarrow> (None, s')
      | (Some e, s') \<Rightarrow> (None, s'\<lparr>console := console s' @ [''[MCP] Failed to send notification:'']\<rparr>))"

subsection \<open>Summaries and aggregated notifications\<close>

text \<open>
  The casts \<open>batch.errors as ShaderCompilationError[]\<close> and \<open>as WebGLError[]\<close> select the
  members of that type; a group holds only members of the type its key announces
  (lemma \<open>addError_groups_typed\<close>).
\<close>

fun shaderErrorsOf :: "RawError list \<Rightarrow> ShaderCompilationError list" where
  "shaderErrorsOf [] = []"
| "shaderErrorsOf (Shader e # es) = e # shaderErrorsOf es"
| "shaderErrorsOf (Runtime e # es) = shaderErrorsOf es"

fun webglErrorsOf :: "RawError list \<Rightarrow> WebGLError list" where
  "webglErrorsOf [] = []"
| "webglErrorsOf (Runtime e # es) = e # webglErrorsOf es"
| "webglErrorsOf (Shader e # es) = webglErrorsOf es"

text \<open>\<open>createShaderErrorSummary\<close>; \<open>errors[0].shaderType\<close> on an empty array throws.\<close>

definition createShaderErrorSummary ::
  "ShaderCompilationError list \<Rightarrow> string \<Rightarrow> Exception + string" where
  "createShaderErrorSummary errs errorType =
     (case errs of
        [] \<Rightarrow> Inl TypeError
      | e0 # _ \<Rightarrow>
          (let cnt = length errs;
               shaderType = shaderTypeOrProgram e0
           in if cnt = 1 then Inr (errorLog e0)
              else
                (let uniqueErrors = uniq (map errorLog errs);
                     errorList = join [CHR 0x0A] (take 3 uniqueErrors)
                 in Inr (showNat cnt @ '' '' @ shaderType @ '' '' @ errorType @ '' errors:''
                      @ [CHR 0x0A] @ errorList
                      @ (if length uniqueErrors > 3
                         then [CHR 0x0A] @ ''... and '' @ showNat (length uniqueErrors - 3) @ '' more''
                         else [])))))"

text \<open>
  \<open>createWebGLErrorSummary\<close>. \<open>const [errorCode, operation] = errorType.split(':')\<close>: the
  first part always exists, the second is \<open>undefined\<close> when there is no colon, and a
  template literal prints it as \<open>undefined\<close>.
\<close>

definition createWebGLErrorSummary :: "string \<Rightarrow> nat \<Rightarrow> string list \<Rightarrow> string option" where
  "createWebGLErrorSummary errorType totalCnt uniqueMessages =
     (let parts = split CHR '':'' errorType;
          errorCode = (case parts of [] \<Rightarrow> [] | p # _ \<Rightarrow> p);
          operation = first (tl parts)
      in if totalCnt = 1 then first uniqueMessages
         else if errorCode = ''INVALID_OPERATION'' \<and> operation = Some ''useProgram'' then
           Some (''WebGL: INVALID_OPERATION: useProgram: program not valid (''
                 @ showNat totalCnt @ '' occurrences)'')
         else if errorCode = ''INVALID_OPERATION'' \<and> operation = Some ''drawElements'' then
           Some (''WebGL: INVALID_OPERATION: drawElements: no valid shader program in use (''
                 @ showNat totalCnt @ '' occurrences)'')
         else
           (let messagePreview = join ''; '' (take 2 uniqueMessages)
            in Some (errorCode @ '' in ''
                 @ (case operation of Some opn \<Rightarrow> opn | None \<Rightarrow> ''undefined'')
                 @ '' ('' @ showNat totalCnt @ '' occurrences): '' @ messagePreview
                 @ (if length uniqueMessages > 2
                    then '' ... and '' @ showNat (length uniqueMessages - 2) @ '' more variations''
                    else []))))"

text \<open>
  The notification that \<open>sendAggregatedNotification\<close> builds for a group, or the exception
  thrown while building it. \<open>now\<close> is the clock (\<open>new Date()\<close>, \<open>Date.now()\<close>).
\<close>

definition aggregatedNotification ::
  "int \<Rightarrow> string \<Rightarrow> ErrorBatch \<Rightarrow> Exception + WebGLNotification" where
  "aggregatedNotification now key batch =
     (let parts = split CHR '':'' key;
          category = (case parts of [] \<Rightarrow> [] | p # _ \<Rightarrow> p);
          errorType = join '':'' (tl parts)
      in if category = ''shader'' then
           (let shaderErrors = shaderErrorsOf (errors batch)
            in case createShaderErrorSummary shaderErrors errorType of
                 Inl e \<Rightarrow> Inl e
               | Inr aggregatedMessage \<Rightarrow>
                   (case shaderErrors of
                      [] \<Rightarrow> Inl TypeError
                    | firstError # _ \<Rightarrow>
                        Inr \<lparr>type_n = (if sublist ''compilation'' errorType
                                       then webgl_error_shader_compilation
                                       else webgl_error_program_linking),
                             timestamp_n = now,
                             error_n = ShaderLog (firstError\<lparr>errorLog := aggregatedMessage\<rparr>),
                             severity = severity_error\<rparr>))
         else
           (let webglErrors = webglErrorsOf (errors batch);
                uniqueMessages = uniq (map message webglErrors);
                aggregatedMessage = createWebGLErrorSummary errorType (totalCount batch) uniqueMessages
            in Inr \<lparr>type_n = webgl_error_general,
                    timestamp_n = now,
                    error_n = General \<lparr>id_a = ''batch-'' @ showInt now,
                                        message_a = aggregatedMessage,
                                        timestamp_a = now,
                                        count_a = totalCount batch\<rparr>,
                    severity = (if totalCount batch > 100 then severity_error else severity_warning)\<rparr>))"

definition sendAggregatedNotification ::
  "Transport \<Rightarrow> int \<Rightarrow> string \<Rightarrow> ErrorBatch \<Rightarrow> ErrorAggregator \<Rightarrow> Outcome" where
  "sendAggregatedNotification transport now key batch s =
     (case aggregatedNotification now key batch of
        Inl e \<Rightarrow> (Some e, s)
      | Inr notification \<Rightarrow> sendWebGLNotification transport notification s)"

subsection \<open>Flush, summary and the public operations\<close>

text \<open>The \<open>for ... of currentBatch\<close> loop of \<open>processBatch\<close>: the first exception ends it.\<close>

fun sendAll :: "Transport \<Rightarrow> int \<Rightarrow> (string \<times> ErrorBatch) list \<Rightarrow> ErrorAggregator \<Rightarrow> Outcome" where
  "sendAll transport now [] s = (None, s)"
| "sendAll transport now ((key, batch) # rest) s =
     andThen (sendAggregatedNotification transport now key batch s) (sendAll transport now rest)"

text \<open>\<open>processBatch\<close>: guard, copy and clear the map, \<open>try\<close> / \<open>catch\<close> / \<open>finally\<close>.\<close>

definition processBatch :: "Transport \<Rightarrow> int \<Rightarrow> ErrorAggregator \<Rightarrow> Outcome" where
  "processBatch transport now s =
     (if \<not> isActive s \<or> isProcessing s \<or> length (errorBatch s) = 0 then (None, s)
      else
        (let currentBatch = errorBatch s;
             s1 = s\<lparr>isProcessing := True, errorBatch := []\<rparr>
         in case sendAll transport now currentBatch s1 of
              (None, s2) \<Rightarrow> (None, s2\<lparr>isProcessing := False\<rparr>)
            | (Some e, s2) \<Rightarrow>
                (None, s2\<lparr>console := console s2 @ [''Failed to process error batch:''],
                           isProcessing := False\<rparr>)))"

text \<open>
  The glyphs of the summary text, as their UTF-8 bytes: a bar chart, a heavy horizontal
  line, a warning sign with its variation selector, and a check mark.
\<close>

definition glyphChart :: string where
  "glyphChart = [CHR 0xF0, CHR 0x9F, CHR 0x93, CHR 0x8A]"

definition glyphRule :: string where
  "glyphRule = concat (replicate 23 [CHR 0xE2, CHR 0x94, CHR 0x81])"

definition glyphWarning :: string where
  "glyphWarning = [CHR 0xE2, CHR 0x9A, CHR 0xA0, CHR 0xEF, CHR 0xB8, CHR 0x8F]"

definition glyphCheck :: string where
  "glyphCheck = [CHR 0xE2, CHR 0x9C, CHR 0x85]"

text \<open>\<open>Math.round(duration / 1000)\<close>: halves go up.\<close>

definition roundSeconds :: "int \<Rightarrow> int" where
  "roundSeconds duration = (duration + 500) div 1000"

definition summaryNotification :: "int \<Rightarrow> int \<Rightarrow> ErrorAggregator \<Rightarrow> WebGLNotification" where
  "summaryNotification now started s =
     (let duration = now - started;
          durationSec = roundSeconds duration;
          summaryMessage =
            glyphChart @ '' Error Collection Complete'' @ [CHR 0x0A]
            @ glyphRule @ [CHR 0x0A]
            @ ''Total Errors: '' @ showNat (totalErrorCount s) @ [CHR 0x0A]
            @ ''Collection Duration: '' @ showInt durationSec @ ''s'' @ [CHR 0x0A]
            @ (if totalErrorCount s \<ge> maxErrorsBeforeStop s
               then glyphWarning @ '' Collection stopped early due to high error volume''
               else glyphCheck @ '' Collection period completed'')
      in \<lparr>type_n = webgl_error_general,
          timestamp_n = now,
          error_n = General \<lparr>id_a = ''summary-'' @ showInt now,
                              message_a = Some summaryMessage,
                              timestamp_a = now,
                              count_a = 1\<rparr>,
          severity = severity_info\<rparr>)"

definition sendFinalSummary :: "Transport \<Rightarrow> int \<Rightarrow> ErrorAggregator \<Rightarrow> Outcome" where
  "sendFinalSummary transport now s =
     (case collectionStartTime s of
        None \<Rightarrow> (None, s)
      | Some started \<Rightarrow>
          if totalErrorCount s = 0 then (None, s)
          else sendWebGLNotification transport (summaryNotification now started s) s)"

definition stop :: "Transport \<Rightarrow> int \<Rightarrow> ErrorAggregator \<Rightarrow> Outcome" where
  "stop transport now s =
     (if \<not> isActive s then (None, s)
      else
        (let s1 = s\<lparr>isActive := False\<rparr>;
             s2 = (if batchTimer s1 then s1\<lparr>batchTimer := False\<rparr> else s1);
             s3 = (if collectionTimer s2 then s2\<lparr>collectionTimer := False\<rparr> else s2)
         in andThen (processBatch transport now s3) (\<lambda>s4.
            andThen (sendFinalSummary transport now s4) (\<lambda>s5.
              (None, s5\<lparr>console := console s5 @
                 [''[ErrorAggregator] Stopped. Total errors collected: ''
                  @ showNat (totalErrorCount s5)]\<rparr>)))))"

definition startBatchTimer :: "ErrorAggregator \<Rightarrow> ErrorAggregator" where
  "startBatchTimer s = (if \<not> isActive s \<or> batchTimer s then s else s\<lparr>batchTimer := True\<rparr>)"

definition start :: "int \<Rightarrow> ErrorAggregator \<Rightarrow> ErrorAggregator" where
  "start now s =
     (if isActive s then s
      else
        (let s1 = s\<lparr>isActive := True, totalErrorCount := 0,
                    collectionStartTime := Some now, errorBatch := []\<rparr>;
             s2 = s1\<lparr>console := console s1 @
                    [''[ErrorAggregator] Starting error collection for ''
                     @ showNat (collectionDuration s1) @ ''ms'']\<rparr>;
             s3 = startBatchTimer s2
         in s3\<lparr>collectionTimer := True\<rparr>))"

text \<open>\<open>'count' in error ? error.count : 1\<close>: only a \<open>WebGLError\<close> has the field.\<close>

fun errorCount :: "RawError \<Rightarrow> nat" where
  "errorCount (Runtime e) = count e"
| "errorCount (Shader e) = 1"

definition addError :: "Transport \<Rightarrow> int \<Rightarrow> RawError \<Rightarrow> ErrorAggregator \<Rightarrow> Outcome" where
  "addError transport now err s =
     (if \<not> isActive s then (None, s)
      else
        (let s1 = s\<lparr>totalErrorCount := totalErrorCount s + errorCount err\<rparr>
         in if totalErrorCount s1 \<ge> maxErrorsBeforeStop s1 then
              stop transport now
                (s1\<lparr>console := console s1 @
                   [''[ErrorAggregator] Max error count reached (''
                    @ showNat (totalErrorCount s1) @ ''). Stopping collection.'']\<rparr>)
            else
              (let key = getErrorKey err;
                   s2 = (case map_of (errorBatch s1) key of
                           Some existing \<Rightarrow>
                             s1\<lparr>errorBatch := AList.update key
                                  (existing\<lparr>errors := errors existing @ [err],
                                            lastSeen := now,
                                            totalCount := totalCount existing + errorCount err\<rparr>)
                                  (errorBatch s1)\<rparr>
                         | None \<Rightarrow>
                             s1\<lparr>errorBatch := AList.update key
                                  \<lparr>errors = [err], firstSeen = now, lastSeen = now,
                                   totalCount = errorCount err\<rparr>
                                  (errorBatch s1)\<rparr>)
               in if length (errorBatch s2) \<ge> maxBatchSize s2 \<and> \<not> isProcessing s2
                  then processBatch transport now s2
                  else (None, s2))))"

text \<open>
  The callback of the batch timer. \<open>this.processBatch()\<close> is not awaited: the callback
  goes on whatever it does, and a rejection would reach the host unhandled.
\<close>

definition batchTimerFired :: "Transport \<Rightarrow> int \<Rightarrow> ErrorAggregator \<Rightarrow> Outcome" where
  "batchTimerFired transport now s =
     (if isActive s then
        (case processBatch transport now s of
           (r, s1) \<Rightarrow> (r, startBatchTimer (s1\<lparr>batchTimer := False\<rparr>)))
      else (None, s))"

text \<open>
  What can happen to an aggregator: the public calls and the two timers. A timer that
  was cleared does not fire. \<open>destroy()\<close> and the collection timer call \<open>stop()\<close>.
\<close>

datatype Call = Start | AddError RawError | Stop | Destroy | BatchTimer | CollectionTimer

fun dispatch :: "Transport \<Rightarrow> int \<Rightarrow> Call \<Rightarrow> ErrorAggregator \<Rightarrow> Outcome" where
  "dispatch transport now Start s = (None, start now s)"
| "dispatch transport now (AddError e) s = addError transport now e s"
| "dispatch transport now Stop s = stop transport now s"
| "dispatch transport now Destroy s = stop transport now s"
| "dispatch transport now BatchTimer s =
     (if batchTimer s then batchTimerFired transport now s else (None, s))"
| "dispatch transport now CollectionTimer s =
     (if collectionTimer s then stop transport now s else (None, s))"

text \<open>A history: calls with the clock reading at each, run in order.\<close>

fun run :: "Transport \<Rightarrow> (int \<times> Call) list \<Rightarrow> ErrorAggregator \<Rightarrow> Outcome" where
  "run transport [] s = (None, s)"
| "run transport ((now, c) # cs) s = andThen (dispatch transport now c s) (run transport cs)"

subsection \<open>Notions used to state the properties\<close>

text \<open>The aggregator right after the synchronous part of \<open>stop()\<close>.\<close>

definition stopped :: "ErrorAggregator \<Rightarrow> ErrorAggregator" where
  "stopped s = s\<lparr>isActive := False, batchTimer := False, collectionTimer := False\<rparr>"

text \<open>
  Every open group has at least one member, and each member has the group's key as its
  signature; no key occurs twice (it is a \<open>Map\<close>).
\<close>

definition groupsTyped :: "(string \<times> ErrorBatch) list \<Rightarrow> bool" where
  "groupsTyped gs =
     (list_all (\<lambda>(k, b). errors b \<noteq> [] \<and> list_all (\<lambda>e. getErrorKey e = k) (errors b)) gs
      \<and> distinct (map fst gs))"



text \<open>
  What it means for \<open>/WebGL.*?:\s*([A-Z_]+):\s*(\w+)/\<close> to match, read off the pattern.
  \<open>tailMatch s code opn\<close>: the part from the colon on matches at the start of \<open>s\<close> with
  the two captures (the run of word characters is as long as it can be, as a greedy
  \<open>\w+\<close> at the end of a pattern is). \<open>patternMatch msg p g code opn\<close>: the whole
  pattern matches in \<open>msg\<close> with \<open>WebGL\<close> at offset \<open>p\<close> and \<open>g\<close> characters, none of them a
  line terminator, under \<open>.*?\<close>. \<open>firstMatch msg p g\<close>: no match starts further left,
  and none with the same start skips fewer characters; this is the match that
  \<open>String.prototype.match\<close> returns.
\<close>

definition tailMatch :: "string \<Rightarrow> string \<Rightarrow> string \<Rightarrow> bool" where
  "tailMatch s code opn =
     (\<exists>ws1 ws2 rest.
        s = '':'' @ ws1 @ code @ '':'' @ ws2 @ opn @ rest
        \<and> list_all isSpaceChar ws1 \<and> code \<noteq> [] \<and> list_all isCodeChar code
        \<and> list_all isSpaceChar ws2 \<and> opn \<noteq> [] \<and> list_all isWordChar opn
        \<and> (rest = [] \<or> \<not> isWordChar (hd rest)))"

definition patternMatch :: "string \<Rightarrow> nat \<Rightarrow> nat \<Rightarrow> string \<Rightarrow> string \<Rightarrow> bool" where
  "patternMatch msg p g code opn =
     (\<exists>pre gap tail.
        msg = pre @ ''WebGL'' @ gap @ tail \<and> length pre = p \<and> length gap = g
        \<and> list_all (\<lambda>c. \<not> isLineTerminator c) gap \<and> tailMatch tail code opn)"

definition firstMatch :: "string \<Rightarrow> nat \<Rightarrow> nat \<Rightarrow> bool" where
  "firstMatch msg p g =
     (\<forall>p' g' code opn. patternMatch msg p' g' code opn \<longrightarrow> p < p' \<or> (p = p' \<and> g \<le> g'))"

text \<open>The pattern tried with \<open>WebGL\<close> at the very start of a string.\<close>

definition matchFrom :: "string \<Rightarrow> (string \<times> string) option" where
  "matchFrom s = (if prefix ''WebGL'' s then matchLazy (drop 5 s) else None)"

subsection \<open>Properties of the comparator\<close>

lemma channelDiffers_same [simp]: "channelDiffers b b k = False"
  by (simp add: channelDiffers_def split: option.split)

lemma pixelDiff_same [simp]: "pixelDiff ch b b i = False"
  by (simp add: pixelDiff_def list_ex_iff)

lemma compareLoop_same_aux: "c = b \<Longrightarrow> fst (compareLoop ch b c i n d) = n"
proof (induction ch b c i n d rule: compareLoop.induct)
  case (1 ch b c i n d)
  then show ?case
    by (subst compareLoop.simps) simp
qed

lemma compareLoop_same: "compareLoop ch b b i n d = (n', d') \<Longrightarrow> n' = n"
  using compareLoop_same_aux [of b b ch i n d] by simp

text \<open>
  Claim C4. Two images whose widths or heights differ compare to
  \<open>{match: false, difference: 100}\<close> with neither a diff path nor a diff buffer, whatever
  their pixels, channel counts and the threshold are.
\<close>

theorem compare_dimension_mismatch:
  assumes "width baseline \<noteq> width current \<or> height baseline \<noteq> height current"
  shows "compareScreenshots diffDir stamp baseline current threshold =
           \<lparr>match = False, difference = Num 100, diffImagePath = None, diffImageData = None\<rparr>"
  using assms by (simp add: compareScreenshots_def)

theorem compare_dimension_mismatch_witness:
  "compareScreenshots ''diffs'' ''t''
     \<lparr>width = 2, height = 1, channels = Some 3, pixels = [255, 0, 0, 255, 0, 0]\<rparr>
     \<lparr>width = 1, height = 1, channels = Some 3, pixels = [255, 0, 0]\<rparr> 0
   = \<lparr>match = False, difference = Num 100, diffImagePath = None, diffImageData = None\<rparr>"
  using compare_dimension_mismatch
    [of "\<lparr>width = 2, height = 1, channels = Some 3, pixels = [255, 0, 0, 255, 0, 0]\<rparr>"
        "\<lparr>width = 1, height = 1, channels = Some 3, pixels = [255, 0, 0]\<rparr>"
        "''diffs''" "''t''" 0]
  by simp

text \<open>
  Claim C7. An image compared with itself, or with any image of the same dimensions and
  the same pixel buffer, has difference 0 and matches, for every threshold that is not
  negative. The image has at least one pixel, as every decoded image has: without pixels
  the percentage is 0 / 0.
\<close>

theorem compare_identical:
  assumes "width current = width baseline" and "height current = height baseline"
    and "pixels current = pixels baseline"
    and "0 < width baseline" and "0 < height baseline"
    and "0 \<le> threshold"
  shows "difference (compareScreenshots diffDir stamp baseline current threshold) = Num 0
       \<and> match (compareScreenshots diffDir stamp baseline current threshold) = True"
proof -
  obtain n d where loop:
    "compareLoop (effectiveChannels (channels baseline)) (pixels baseline) (pixels baseline) 0 0
       (replicate (length (pixels baseline)) 0) = (n, d)"
    by (cases "compareLoop (effectiveChannels (channels baseline)) (pixels baseline)
          (pixels baseline) 0 0 (replicate (length (pixels baseline)) 0)")
  have "n = 0"
    using compareLoop_same [OF loop] .
  with loop assms show ?thesis
    by (simp add: compareScreenshots_def)
qed

theorem compare_identical_witness:
  "difference (compareScreenshots ''diffs'' ''t''
       \<lparr>width = 2, height = 1, channels = Some 3, pixels = [255, 0, 0, 255, 0, 0]\<rparr>
       \<lparr>width = 2, height = 1, channels = Some 3, pixels = [255, 0, 0, 255, 0, 0]\<rparr> (1 / 10))
     = Num 0
   \<and> match (compareScreenshots ''diffs'' ''t''
       \<lparr>width = 2, height = 1, channels = Some 3, pixels = [255, 0, 0, 255, 0, 0]\<rparr>
       \<lparr>width = 2, height = 1, channels = Some 3, pixels = [255, 0, 0, 255, 0, 0]\<rparr> (1 / 10))
     = True"
  using compare_identical
    [of "\<lparr>width = 2, height = 1, channels = Some 3, pixels = [255, 0, 0, 255, 0, 0]\<rparr>"
        "\<lparr>width = 2, height = 1, channels = Some 3, pixels = [255, 0, 0, 255, 0, 0]\<rparr>"
        "1 / 10" "''diffs''" "''t''"]
  by simp

text \<open>
  Claim C8, as stated: a diff image is produced if and only if the result has
  \<open>match == false\<close>. It fails for images of different dimensions: the result does not
  match and carries no diff image.
\<close>

theorem diff_image_iff_counterexample:
  "\<not> (diffImagePath (compareScreenshots ''diffs'' ''t''
          \<lparr>width = 2, height = 1, channels = Some 3, pixels = [255, 0, 0, 255, 0, 0]\<rparr>
          \<lparr>width = 1, height = 1, channels = Some 3, pixels = [255, 0, 0]\<rparr> 0) \<noteq> None
        \<longleftrightarrow>
        match (compareScreenshots ''diffs'' ''t''
          \<lparr>width = 2, height = 1, channels = Some 3, pixels = [255, 0, 0, 255, 0, 0]\<rparr>
          \<lparr>width = 1, height = 1, channels = Some 3, pixels = [255, 0, 0]\<rparr> 0) = False)"
  by (simp add: compareScreenshots_def)

text \<open>
  Claim C8, amended. A diff image, path and buffer together, is produced if and only if
  the two images have the same width and height and the result has \<open>match == false\<close>.
\<close>

theorem diff_image_iff_mismatch_on_equal_dimensions:
  "(diffImagePath (compareScreenshots diffDir stamp baseline current threshold) \<noteq> None
      \<longleftrightarrow> (width baseline = width current \<and> height baseline = height current
           \<and> match (compareScreenshots diffDir stamp baseline current threshold) = False))
   \<and> (diffImageData (compareScreenshots diffDir stamp baseline current threshold) \<noteq> None
      \<longleftrightarrow> (width baseline = width current \<and> height baseline = height current
           \<and> match (compareScreenshots diffDir stamp baseline current threshold) = False))"
  by (simp add: compareScreenshots_def Let_def split: prod.split)

theorem diff_image_iff_mismatch_on_equal_dimensions_witness:
  "diffImagePath (compareScreenshots ''diffs'' ''t''
       \<lparr>width = 2, height = 1, channels = Some 3, pixels = [255, 0, 0, 255, 0, 0]\<rparr>
       \<lparr>width = 2, height = 1, channels = Some 3, pixels = [255, 0, 0, 0, 0, 255]\<rparr> 0)
     \<noteq> None
   \<and> diffImageData (compareScreenshots ''diffs'' ''t''
       \<lparr>width = 2, height = 1, channels = Some 3, pixels = [255, 0, 0, 255, 0, 0]\<rparr>
       \<lparr>width = 2, height = 1, channels = Some 3, pixels = [255, 0, 0, 0, 0, 255]\<rparr> 0)
     \<noteq> None
   \<and> match (compareScreenshots ''diffs'' ''t''
       \<lparr>width = 2, height = 1, channels = Some 3, pixels = [255, 0, 0, 255, 0, 0]\<rparr>
       \<lparr>width = 2, height = 1, channels = Some 3, pixels = [255, 0, 0, 0, 0, 255]\<rparr> 0)
     = False"
proof -
  have m: "match (compareScreenshots ''diffs'' ''t''
       \<lparr>width = 2, height = 1, channels = Some 3, pixels = [255, 0, 0, 255, 0, 0]\<rparr>
       \<lparr>width = 2, height = 1, channels = Some 3, pixels = [255, 0, 0, 0, 0, 255]\<rparr> 0)
     = False"
    by code_simp
  show ?thesis
    using m diff_image_iff_mismatch_on_equal_dimensions
      [of "''diffs''" "''t''"
          "\<lparr>width = 2, height = 1, channels = Some 3, pixels = [255, 0, 0, 255, 0, 0]\<rparr>"
          "\<lparr>width = 2, height = 1, channels = Some 3, pixels = [255, 0, 0, 0, 0, 255]\<rparr>" 0]
    by simp
qed

section \<open>Properties of the error aggregator\<close>

subsection \<open>No exception leaves the aggregator\<close>

lemma sendWebGLNotification_eq:
  "sendWebGLNotification transport n s =
     (None, s\<lparr>sink := sink s @ [(n, transport (length (sink s)) n)],
              console := (if transport (length (sink s)) n then console s
                          else console s @ [''[MCP] Failed to send notification:''])\<rparr>)"
  by (simp add: sendWebGLNotification_def server_notification_def)

lemma sendWebGLNotification_no_exception [simp]:
  "fst (sendWebGLNotification transport n s) = None"
  by (simp add: sendWebGLNotification_eq)

lemma processBatch_no_exception [simp]: "fst (processBatch transport now s) = None"
  by (simp add: processBatch_def Let_def split: prod.split option.split)

lemma sendFinalSummary_no_exception [simp]: "fst (sendFinalSummary transport now s) = None"
  by (simp add: sendFinalSummary_def split: option.split)

lemma andThen_no_exception:
  "fst r = None \<Longrightarrow> (\<And>s. fst (f s) = None) \<Longrightarrow> fst (andThen r f) = None"
  by (cases r) (auto simp: andThen_def split: option.split)

lemma andThen_snd:
  "fst r = None \<Longrightarrow> andThen r f = f (snd r)"
  by (cases r) (simp add: andThen_def)

lemma stop_no_exception [simp]: "fst (stop transport now s) = None"
  by (simp add: stop_def Let_def andThen_no_exception)

lemma addError_no_exception [simp]: "fst (addError transport now e s) = None"
  by (simp add: addError_def Let_def split: option.split)

lemma batchTimerFired_no_exception [simp]: "fst (batchTimerFired transport now s) = None"
  by (simp add: batchTimerFired_def split: prod.split)
    (metis fst_conv processBatch_no_exception)

lemma dispatch_no_exception [simp]: "fst (dispatch transport now c s) = None"
  by (cases c) simp_all

lemma run_no_exception [simp]: "fst (run transport cs s) = None"
  by (induction cs arbitrary: s) (auto simp: andThen_no_exception)

lemma run_Cons_snd:
  "snd (run transport ((now, c) # cs) s) = snd (run transport cs (snd (dispatch transport now c s)))"
  by (simp add: andThen_snd)

subsection \<open>What each step changes\<close>

lemma sendAggregatedNotification_shape:
  "\<exists>sk cs. snd (sendAggregatedNotification transport now k b s) = s\<lparr>sink := sk, console := cs\<rparr>"
proof (cases "aggregatedNotification now k b")
  case (Inl e)
  then have "snd (sendAggregatedNotification transport now k b s)
      = s\<lparr>sink := sink s, console := console s\<rparr>"
    by (simp add: sendAggregatedNotification_def)
  then show ?thesis by blast
next
  case (Inr n)
  then have "snd (sendAggregatedNotification transport now k b s)
      = s\<lparr>sink := sink s @ [(n, transport (length (sink s)) n)],
           console := (if transport (length (sink s)) n then console s
                       else console s @ [''[MCP] Failed to send notification:''])\<rparr>"
    by (simp only: sendAggregatedNotification_def sum.case sendWebGLNotification_eq snd_conv)
  then show ?thesis by blast
qed

lemma sendAll_shape:
  "\<exists>sk cs. snd (sendAll transport now gs s) = s\<lparr>sink := sk, console := cs\<rparr>"
proof (induction gs arbitrary: s)
  case Nil
  have "snd (sendAll transport now [] s) = s\<lparr>sink := sink s, console := console s\<rparr>"
    by simp
  then show ?case by blast
next
  case (Cons g gs)
  obtain k b where g: "g = (k, b)" by (cases g)
  obtain r s1 where step: "sendAggregatedNotification transport now k b s = (r, s1)"
    by (cases "sendAggregatedNotification transport now k b s")
  obtain sk cs where s1: "s1 = s\<lparr>sink := sk, console := cs\<rparr>"
    using sendAggregatedNotification_shape [of transport now k b s] step by auto
  show ?case
  proof (cases r)
    case None
    obtain sk' cs' where "snd (sendAll transport now gs s1) = s1\<lparr>sink := sk', console := cs'\<rparr>"
      using Cons.IH [of s1] by blast
    then have "snd (sendAll transport now (g # gs) s) = s\<lparr>sink := sk', console := cs'\<rparr>"
      using g step None s1 by (simp add: andThen_def)
    then show ?thesis by blast
  next
    case (Some e)
    then have "snd (sendAll transport now (g # gs) s) = s\<lparr>sink := sk, console := cs\<rparr>"
      using g step s1 by (simp add: andThen_def)
    then show ?thesis by blast
  qed
qed

lemma processBatch_inactive [simp]:
  "\<not> isActive s \<Longrightarrow> processBatch transport now s = (None, s)"
  by (simp add: processBatch_def)

lemma processBatch_shape:
  "\<exists>eb sk cs. snd (processBatch transport now s)
     = s\<lparr>errorBatch := eb, isProcessing := isProcessing s, sink := sk, console := cs\<rparr>"
proof (cases "\<not> isActive s \<or> isProcessing s \<or> length (errorBatch s) = 0")
  case True
  then have "snd (processBatch transport now s)
      = s\<lparr>errorBatch := errorBatch s, isProcessing := isProcessing s,
           sink := sink s, console := console s\<rparr>"
    by (simp add: processBatch_def)
  then show ?thesis by blast
next
  case False
  let ?s1 = "s\<lparr>isProcessing := True, errorBatch := []\<rparr>"
  obtain r s2 where run: "sendAll transport now (errorBatch s) ?s1 = (r, s2)"
    by (cases "sendAll transport now (errorBatch s) ?s1")
  obtain sk cs where s2: "s2 = ?s1\<lparr>sink := sk, console := cs\<rparr>"
    using sendAll_shape [of transport now "errorBatch s" ?s1] run by auto
  from False have ip: "isProcessing s = False" by simp
  show ?thesis
  proof (cases r)
    case None
    with False run s2 ip have "snd (processBatch transport now s)
        = s\<lparr>errorBatch := [], isProcessing := isProcessing s, sink := sk, console := cs\<rparr>"
      by (simp add: processBatch_def)
    then show ?thesis by blast
  next
    case (Some e)
    with False run s2 ip have "snd (processBatch transport now s)
        = s\<lparr>errorBatch := [], isProcessing := isProcessing s, sink := sk,
             console := cs @ [''Failed to process error batch:'']\<rparr>"
      by (simp add: processBatch_def)
    then show ?thesis by blast
  qed
qed

lemma processBatch_total [simp]:
  "totalErrorCount (snd (processBatch transport now s)) = totalErrorCount s"
  using processBatch_shape [of transport now s] by auto

lemma processBatch_isActive [simp]:
  "isActive (snd (processBatch transport now s)) = isActive s"
  using processBatch_shape [of transport now s] by auto

lemma processBatch_isProcessing [simp]:
  "isProcessing (snd (processBatch transport now s)) = isProcessing s"
  using processBatch_shape [of transport now s] by auto

lemma processBatch_timers [simp]:
  "batchTimer (snd (processBatch transport now s)) = batchTimer s"
  "collectionTimer (snd (processBatch transport now s)) = collectionTimer s"
  using processBatch_shape [of transport now s] by auto

lemma processBatch_config [simp]:
  "maxErrorsBeforeStop (snd (processBatch transport now s)) = maxErrorsBeforeStop s"
  "maxBatchSize (snd (processBatch transport now s)) = maxBatchSize s"
  using processBatch_shape [of transport now s] by auto

text \<open>
  \<open>stop()\<close> on an active aggregator: \<open>isActive\<close> is already false when \<open>processBatch\<close>
  runs, so its guard returns at once and only the summary can be sent.
\<close>

lemma stop_active:
  assumes "isActive s"
  shows "stop transport now s =
           (None, (snd (sendFinalSummary transport now (stopped s)))
              \<lparr>console := console (snd (sendFinalSummary transport now (stopped s))) @
                 [''[ErrorAggregator] Stopped. Total errors collected: ''
                  @ showNat (totalErrorCount s)]\<rparr>)"
proof -
  let ?s3 = "stopped s"
  have s3: "(let s1 = s\<lparr>isActive := False\<rparr>;
                 s2 = (if batchTimer s1 then s1\<lparr>batchTimer := False\<rparr> else s1)
             in (if collectionTimer s2 then s2\<lparr>collectionTimer := False\<rparr> else s2)) = ?s3"
    by (cases "batchTimer s"; cases "collectionTimer s") (simp_all add: stopped_def)
  have pb: "processBatch transport now ?s3 = (None, ?s3)"
    by (simp add: stopped_def)
  have tot: "totalErrorCount (snd (sendFinalSummary transport now ?s3)) = totalErrorCount s"
    by (simp add: sendFinalSummary_def sendWebGLNotification_eq stopped_def split: option.split)
  have "stop transport now s =
      andThen (processBatch transport now ?s3) (\<lambda>s4.
        andThen (sendFinalSummary transport now s4) (\<lambda>s5.
          (None, s5\<lparr>console := console s5 @
             [''[ErrorAggregator] Stopped. Total errors collected: ''
              @ showNat (totalErrorCount s5)]\<rparr>)))"
    using assms s3 unfolding stop_def Let_def by simp
  then show ?thesis
    using pb tot by (simp add: andThen_snd)
qed

lemma sendFinalSummary_shape:
  "\<exists>sk cs. snd (sendFinalSummary transport now s) = s\<lparr>sink := sk, console := cs\<rparr>"
proof (cases "collectionStartTime s = None \<or> totalErrorCount s = 0")
  case True
  then have "snd (sendFinalSummary transport now s) = s\<lparr>sink := sink s, console := console s\<rparr>"
    by (auto simp: sendFinalSummary_def split: option.split)
  then show ?thesis by blast
next
  case False
  then obtain t where t: "collectionStartTime s = Some t" by auto
  let ?n = "summaryNotification now t s"
  have "snd (sendFinalSummary transport now s)
      = s\<lparr>sink := sink s @ [(?n, transport (length (sink s)) ?n)],
           console := (if transport (length (sink s)) ?n then console s
                       else console s @ [''[MCP] Failed to send notification:''])\<rparr>"
    using False t by (simp add: sendFinalSummary_def sendWebGLNotification_eq)
  then show ?thesis by blast
qed

lemma stop_shape:
  "\<exists>sk cs. snd (stop transport now s)
     = (if isActive s
        then s\<lparr>batchTimer := False, collectionTimer := False, isActive := False,
               sink := sk, console := cs\<rparr>
        else s)"
proof (cases "isActive s")
  case False
  then show ?thesis by (simp add: stop_def)
next
  case True
  obtain sk cs where "snd (sendFinalSummary transport now (stopped s))
      = (stopped s)\<lparr>sink := sk, console := cs\<rparr>"
    using sendFinalSummary_shape by blast
  then have "snd (stop transport now s)
      = s\<lparr>batchTimer := False, collectionTimer := False, isActive := False, sink := sk,
           console := cs @ [''[ErrorAggregator] Stopped. Total errors collected: ''
                  @ showNat (totalErrorCount s)]\<rparr>"
    using True by (simp add: stop_active stopped_def)
  with True show ?thesis by auto
qed

lemma stop_fields:
  "totalErrorCount (snd (stop transport now s)) = totalErrorCount s"
  "errorBatch (snd (stop transport now s)) = errorBatch s"
  "isActive (snd (stop transport now s)) = False"
  "maxErrorsBeforeStop (snd (stop transport now s)) = maxErrorsBeforeStop s"
  "maxBatchSize (snd (stop transport now s)) = maxBatchSize s"
  "isProcessing (snd (stop transport now s)) = isProcessing s"
  "batchTimer (snd (stop transport now s)) = (\<not> isActive s \<and> batchTimer s)"
  "collectionTimer (snd (stop transport now s)) = (\<not> isActive s \<and> collectionTimer s)"
proof -
  obtain sk cs where eq: "snd (stop transport now s)
     = (if isActive s
        then s\<lparr>batchTimer := False, collectionTimer := False, isActive := False,
               sink := sk, console := cs\<rparr>
        else s)"
    using stop_shape by blast
  show "totalErrorCount (snd (stop transport now s)) = totalErrorCount s"
    and "errorBatch (snd (stop transport now s)) = errorBatch s"
    and "isActive (snd (stop transport now s)) = False"
    and "maxErrorsBeforeStop (snd (stop transport now s)) = maxErrorsBeforeStop s"
    and "maxBatchSize (snd (stop transport now s)) = maxBatchSize s"
    and "isProcessing (snd (stop transport now s)) = isProcessing s"
    and "batchTimer (snd (stop transport now s)) = (\<not> isActive s \<and> batchTimer s)"
    and "collectionTimer (snd (stop transport now s)) = (\<not> isActive s \<and> collectionTimer s)"
    by (simp_all add: eq)
qed

declare stop_fields [simp]

subsection \<open>The error counter\<close>

lemma addError_inactive [simp]:
  "\<not> isActive s \<Longrightarrow> addError transport now e s = (None, s)"
  by (simp add: addError_def)

lemma addError_total:
  "totalErrorCount (snd (addError transport now e s))
     = (if isActive s then totalErrorCount s + errorCount e else totalErrorCount s)"
  by (simp add: addError_def Let_def split: option.split)

lemma startBatchTimer_fields [simp]:
  "totalErrorCount (startBatchTimer s) = totalErrorCount s"
  "isActive (startBatchTimer s) = isActive s"
  "errorBatch (startBatchTimer s) = errorBatch s"
  "batchTimer (startBatchTimer s) = (batchTimer s \<or> isActive s)"
  by (auto simp: startBatchTimer_def)

lemma batchTimerFired_fields [simp]:
  "totalErrorCount (snd (batchTimerFired transport now s)) = totalErrorCount s"
  "isActive (snd (batchTimerFired transport now s)) = isActive s"
  by (simp_all add: batchTimerFired_def split: prod.split)
    (metis processBatch_total processBatch_isActive snd_conv)+


lemma addError_stays_inactive:
  "\<not> isActive s \<Longrightarrow> \<not> isActive (snd (addError transport now e s))"
  by simp







subsection \<open>A fresh session\<close>

lemma createErrorAggregator_fields [simp]:
  "isActive (createErrorAggregator bi mbs cd mebs) = False"
  "isProcessing (createErrorAggregator bi mbs cd mebs) = False"
  "sink (createErrorAggregator bi mbs cd mebs) = []"
  "errorBatch (createErrorAggregator bi mbs cd mebs) = []"
  "maxErrorsBeforeStop (createErrorAggregator bi mbs cd mebs)
     = (case mebs of Some v \<Rightarrow> v | None \<Rightarrow> 1000)"
  "maxBatchSize (createErrorAggregator bi mbs cd mebs)
     = (case mbs of Some v \<Rightarrow> v | None \<Rightarrow> 50)"
  by (simp_all add: createErrorAggregator_def)

lemma start_fields [simp]:
  assumes "\<not> isActive s"
  shows "isActive (start now s)"
    and "totalErrorCount (start now s) = 0"
    and "errorBatch (start now s) = []"
    and "collectionStartTime (start now s) = Some now"
    and "batchTimer (start now s)"
    and "collectionTimer (start now s)"
    and "maxErrorsBeforeStop (start now s) = maxErrorsBeforeStop s"
    and "maxBatchSize (start now s) = maxBatchSize s"
    and "isProcessing (start now s) = isProcessing s"
    and "sink (start now s) = sink s"
  using assms by (simp_all add: start_def Let_def startBatchTimer_def)

lemma addError_below_threshold_active:
  assumes "isActive s" and "totalErrorCount s + errorCount e < maxErrorsBeforeStop s"
  shows "isActive (snd (addError transport now e s))"
  using assms by (simp add: addError_def Let_def split: option.split)

lemma addError_config [simp]:
  "maxErrorsBeforeStop (snd (addError transport now e s)) = maxErrorsBeforeStop s"
  by (simp add: addError_def Let_def split: option.split)

lemma batchTimerFired_config [simp]:
  "maxErrorsBeforeStop (snd (batchTimerFired transport now s)) = maxErrorsBeforeStop s"
  by (simp add: batchTimerFired_def startBatchTimer_def split: prod.split)
    (metis processBatch_config(1) snd_conv)



subsection \<open>What \<open>stop()\<close> sends\<close>

lemma severity_summaryNotification [simp]:
  "severity (summaryNotification now started s) = severity_info"
  by (simp add: summaryNotification_def Let_def)

lemma sendFinalSummary_sink:
  "sink (snd (sendFinalSummary transport now s)) =
     sink s @
     (case collectionStartTime s of
        None \<Rightarrow> []
      | Some started \<Rightarrow>
          if totalErrorCount s = 0 then []
          else [(summaryNotification now started s,
                 transport (length (sink s)) (summaryNotification now started s))])"
  by (simp add: sendFinalSummary_def sendWebGLNotification_eq split: option.split)

lemma stop_sink:
  assumes "isActive s"
  shows "sink (snd (stop transport now s)) = sink (snd (sendFinalSummary transport now (stopped s)))"
  using assms by (simp add: stop_active)

lemma stopped_fields [simp]:
  "sink (stopped s) = sink s"
  "collectionStartTime (stopped s) = collectionStartTime s"
  "totalErrorCount (stopped s) = totalErrorCount s"
  "errorBatch (stopped s) = errorBatch s"
  by (simp_all add: stopped_def)

lemma addError_threshold:
  assumes "isActive s" and "maxErrorsBeforeStop s \<le> totalErrorCount s + errorCount e"
  shows "addError transport now e s =
           stop transport now
             (s\<lparr>totalErrorCount := totalErrorCount s + errorCount e,
                console := console s @
                  [''[ErrorAggregator] Max error count reached (''
                   @ showNat (totalErrorCount s + errorCount e) @ ''). Stopping collection.'']\<rparr>)"
  using assms by (simp add: addError_def Let_def)

text \<open>
  Claim C1, on the code. \<open>stop()\<close> on an Active aggregator clears \<open>isActive\<close> before it
  calls \<open>processBatch\<close>, whose guard then returns at once. Whatever groups are open, they
  stay in \<open>errorBatch\<close>, and \<open>stop()\<close> hands the sink nothing but the session summary
  (when there is one): no open group produces an aggregated notification.
\<close>

theorem stop_sends_no_final_flush:
  assumes "isActive s"
  shows "errorBatch (snd (stop transport now s)) = errorBatch s
       \<and> sink (snd (stop transport now s)) =
           sink s @
           (case collectionStartTime s of
              None \<Rightarrow> []
            | Some started \<Rightarrow>
                if totalErrorCount s = 0 then []
                else [(summaryNotification now started (stopped s),
                       transport (length (sink s)) (summaryNotification now started (stopped s)))])"
  using assms by (simp add: stop_sink sendFinalSummary_sink split: option.split)

text \<open>
  The failing input: a session is started, one runtime error is added, \<open>stop()\<close> is
  called. The group of the error is still open afterwards and the only notification
  sent has severity info.
\<close>

theorem stop_sends_no_final_flush_witness:
  "map fst (errorBatch (snd (stop (\<lambda>k n. True) 9
       (snd (addError (\<lambda>k n. True) 5
          (Runtime \<lparr>id_w = ''a'',
             message = ''WebGL: INVALID_OPERATION: useProgram: program not valid'',
             stackTrace = None, timestamp_w = 5, count = 1, url_w = None, functionName = None\<rparr>)
          (start 0 (createErrorAggregator None None None None)))))))
     = [''webgl:INVALID_OPERATION:useProgram'']
   \<and> map (\<lambda>(n, accepted). severity n) (sink (snd (stop (\<lambda>k n. True) 9
       (snd (addError (\<lambda>k n. True) 5
          (Runtime \<lparr>id_w = ''a'',
             message = ''WebGL: INVALID_OPERATION: useProgram: program not valid'',
             stackTrace = None, timestamp_w = 5, count = 1, url_w = None, functionName = None\<rparr>)
          (start 0 (createErrorAggregator None None None None)))))))
     = [severity_info]"
proof -
  let ?e = "Runtime \<lparr>id_w = ''a'',
             message = ''WebGL: INVALID_OPERATION: useProgram: program not valid'',
             stackTrace = None, timestamp_w = 5, count = 1, url_w = None, functionName = None\<rparr>"
  let ?t = "\<lambda>(k::nat) (n::WebGLNotification). True"
  let ?s0 = "start 0 (createErrorAggregator None None None None)"
  let ?s1 = "snd (addError ?t 5 ?e ?s0)"
  have key: "\<And>w. message w = ''WebGL: INVALID_OPERATION: useProgram: program not valid''
      \<Longrightarrow> getErrorKey (Runtime w) = ''webgl:INVALID_OPERATION:useProgram''"
    by (simp add: getErrorKey_def extractErrorType_def matchTail_def isSpaceChar_def
        isCodeChar_def isWordChar_def isLineTerminator_def)
  have active: "isActive ?s1"
    by (rule addError_below_threshold_active) simp_all
  have total: "totalErrorCount ?s1 = 1"
    by (simp add: addError_total)
  have groups: "map fst (errorBatch ?s1) = [''webgl:INVALID_OPERATION:useProgram'']"
    by (simp add: addError_def Let_def key)
  have started: "collectionStartTime ?s1 = Some 0"
    by (simp add: addError_def Let_def key)
  have sink: "sink ?s1 = []"
    by (simp add: addError_def Let_def key)
  show ?thesis
    using stop_sends_no_final_flush [OF active, of ?t 9] groups total started sink
    by simp
qed

text \<open>
  Claim C2, as stated: the event that reaches \<open>maxErrorsBeforeStop\<close> is recorded into its
  group and flushed once. With \<open>maxErrorsBeforeStop = 1\<close> the first event stops the
  session; afterwards it is counted, no group holds it, and the only notification sent
  is the session summary.
\<close>

theorem addError_threshold_event_counterexample:
  "isActive (snd (addError (\<lambda>k n. True) 5
       (Runtime \<lparr>id_w = ''a'',
          message = ''WebGL: INVALID_OPERATION: useProgram: program not valid'',
          stackTrace = None, timestamp_w = 5, count = 1, url_w = None, functionName = None\<rparr>)
       (start 0 (createErrorAggregator None None None (Some 1))))) = False
   \<and> totalErrorCount (snd (addError (\<lambda>k n. True) 5
       (Runtime \<lparr>id_w = ''a'',
          message = ''WebGL: INVALID_OPERATION: useProgram: program not valid'',
          stackTrace = None, timestamp_w = 5, count = 1, url_w = None, functionName = None\<rparr>)
       (start 0 (createErrorAggregator None None None (Some 1))))) = 1
   \<and> errorBatch (snd (addError (\<lambda>k n. True) 5
       (Runtime \<lparr>id_w = ''a'',
          message = ''WebGL: INVALID_OPERATION: useProgram: program not valid'',
          stackTrace = None, timestamp_w = 5, count = 1, url_w = None, functionName = None\<rparr>)
       (start 0 (createErrorAggregator None None None (Some 1))))) = []
   \<and> map (\<lambda>(n, accepted). severity n) (sink (snd (addError (\<lambda>k n. True) 5
       (Runtime \<lparr>id_w = ''a'',
          message = ''WebGL: INVALID_OPERATION: useProgram: program not valid'',
          stackTrace = None, timestamp_w = 5, count = 1, url_w = None, functionName = None\<rparr>)
       (start 0 (createErrorAggregator None None None (Some 1)))))) = [severity_info]"
proof -
  let ?e = "Runtime \<lparr>id_w = ''a'',
          message = ''WebGL: INVALID_OPERATION: useProgram: program not valid'',
          stackTrace = None, timestamp_w = 5, count = 1, url_w = None, functionName = None\<rparr>"
  let ?t = "\<lambda>(k::nat) (n::WebGLNotification). True"
  let ?s0 = "start 0 (createErrorAggregator None None None (Some 1))"
  let ?s1 = "?s0\<lparr>totalErrorCount := totalErrorCount ?s0 + errorCount ?e,
                console := console ?s0 @
                  [''[ErrorAggregator] Max error count reached (''
                   @ showNat (totalErrorCount ?s0 + errorCount ?e) @ ''). Stopping collection.'']\<rparr>"
  have a: "isActive ?s0" by simp
  have b: "maxErrorsBeforeStop ?s0 \<le> totalErrorCount ?s0 + errorCount ?e" by simp
  have eq: "addError ?t 5 ?e ?s0 = stop ?t 5 ?s1"
    by (rule addError_threshold [OF a b])
  have a1: "isActive ?s1" by simp
  have "sink (snd (stop ?t 5 ?s1)) = sink (snd (sendFinalSummary ?t 5 (stopped ?s1)))"
    by (rule stop_sink [OF a1])
  then have sk: "map (\<lambda>(n, accepted). severity n) (sink (snd (stop ?t 5 ?s1))) = [severity_info]"
    by (simp add: sendFinalSummary_sink)
  show ?thesis
    unfolding eq using sk by simp
qed

text \<open>
  Claim C2, amended. When an event's weight brings \<open>totalErrorCount\<close> to
  \<open>maxErrorsBeforeStop\<close> or beyond, \<open>addError\<close> counts the weight, logs, calls \<open>stop()\<close>
  at once and returns what \<open>stop()\<close> returns: the aggregator is no longer Active, both
  timers are cleared, and the event is not recorded (every group left is a group that
  was there before the call, unchanged).
\<close>

theorem addError_threshold_stops_without_recording:
  assumes "isActive s" and "maxErrorsBeforeStop s \<le> totalErrorCount s + errorCount e"
  shows "addError transport now e s =
           stop transport now
             (s\<lparr>totalErrorCount := totalErrorCount s + errorCount e,
                console := console s @
                  [''[ErrorAggregator] Max error count reached (''
                   @ showNat (totalErrorCount s + errorCount e) @ ''). Stopping collection.'']\<rparr>)
       \<and> fst (addError transport now e s) = None
       \<and> isActive (snd (addError transport now e s)) = False
       \<and> batchTimer (snd (addError transport now e s)) = False
       \<and> collectionTimer (snd (addError transport now e s)) = False
       \<and> totalErrorCount (snd (addError transport now e s)) = totalErrorCount s + errorCount e
       \<and> set (errorBatch (snd (addError transport now e s))) \<subseteq> set (errorBatch s)"
  using assms by (simp add: addError_threshold [OF assms])

theorem addError_threshold_stops_without_recording_witness:
  "isActive (snd (addError (\<lambda>k n. True) 7
       (Shader \<lparr>id_s = ''b'', type_s = shader_compilation, shaderType = Some fragment,
          source = None, errorLog = ''ERROR: 0:3: syntax error'', lineNumber = None,
          columnNumber = None, timestamp_s = 7, url_s = None, programId = None, shaderId = None\<rparr>)
       (start 0 (createErrorAggregator None None None (Some 1))))) = False
   \<and> totalErrorCount (snd (addError (\<lambda>k n. True) 7
       (Shader \<lparr>id_s = ''b'', type_s = shader_compilation, shaderType = Some fragment,
          source = None, errorLog = ''ERROR: 0:3: syntax error'', lineNumber = None,
          columnNumber = None, timestamp_s = 7, url_s = None, programId = None, shaderId = None\<rparr>)
       (start 0 (createErrorAggregator None None None (Some 1))))) = 1
   \<and> errorBatch (snd (addError (\<lambda>k n. True) 7
       (Shader \<lparr>id_s = ''b'', type_s = shader_compilation, shaderType = Some fragment,
          source = None, errorLog = ''ERROR: 0:3: syntax error'', lineNumber = None,
          columnNumber = None, timestamp_s = 7, url_s = None, programId = None, shaderId = None\<rparr>)
       (start 0 (createErrorAggregator None None None (Some 1))))) = []"
proof -
  let ?e = "Shader \<lparr>id_s = ''b'', type_s = shader_compilation, shaderType = Some fragment,
          source = None, errorLog = ''ERROR: 0:3: syntax error'', lineNumber = None,
          columnNumber = None, timestamp_s = 7, url_s = None, programId = None, shaderId = None\<rparr>"
  let ?s = "start 0 (createErrorAggregator None None None (Some 1))"
  have a: "isActive ?s" by simp
  have b: "maxErrorsBeforeStop ?s \<le> totalErrorCount ?s + errorCount ?e" by simp
  have c: "errorBatch ?s = []" by simp
  have d: "totalErrorCount ?s = 0" by simp
  show ?thesis
    using addError_threshold_stops_without_recording [OF a b, of "\<lambda>k n. True" 7] c d
    by simp
qed

subsection \<open>Keys, categories and well-typed groups\<close>

lemma split_shader_prefix:
  "split CHR '':'' (''shader:'' @ rest) = ''shader'' # split CHR '':'' rest"
  by simp

lemma split_webgl_prefix:
  "split CHR '':'' (''webgl:'' @ rest) = ''webgl'' # split CHR '':'' rest"
  by simp

lemma split_nonempty [simp]: "split sep s \<noteq> []"
  by (induction s) (auto split: list.split)

lemma getErrorKey_Shader_prefix: "prefix ''shader:'' (getErrorKey (Shader se))"
  by (simp add: getErrorKey_def)

lemma getErrorKey_Runtime_prefix: "prefix ''webgl:'' (getErrorKey (Runtime we))"
  by (simp add: getErrorKey_def)

lemma shader_key_is_shader_event:
  assumes "prefix ''shader:'' (getErrorKey e)"
  shows "\<exists>se. e = Shader se"
proof (cases e)
  case (Runtime we)
  with assms show ?thesis by (simp add: getErrorKey_def)
next
  case (Shader se)
  then show ?thesis by blast
qed

lemma shaderErrorsOf_typed:
  assumes "errs \<noteq> []" and "list_all (\<lambda>e. getErrorKey e = key) errs" and "prefix ''shader:'' key"
  shows "shaderErrorsOf errs \<noteq> []"
proof -
  from assms(1) obtain e es where errs: "errs = e # es" by (cases errs) auto
  with assms(2) have "getErrorKey e = key" by simp
  with assms(3) obtain se where "e = Shader se"
    using shader_key_is_shader_event by blast
  with errs show ?thesis by simp
qed

text \<open>What \<open>sendAggregatedNotification\<close> builds under a key that begins \<open>shader:\<close>.\<close>

lemma aggregatedNotification_shader:
  assumes "prefix ''shader:'' key" and "shaderErrorsOf (errors batch) \<noteq> []"
  shows "\<exists>n. aggregatedNotification now key batch = Inr n \<and> severity n = severity_error"
proof -
  from assms(1) obtain rest where key: "key = ''shader:'' @ rest"
    by (auto simp: prefix_def)
  from assms(2) obtain e0 es where errs: "shaderErrorsOf (errors batch) = e0 # es"
    by (cases "shaderErrorsOf (errors batch)") auto
  obtain msg where msg:
    "createShaderErrorSummary (e0 # es) (join '':'' (split CHR '':'' rest)) = Inr msg"
    by (cases "es = []") (simp_all add: createShaderErrorSummary_def Let_def)
  show ?thesis
    unfolding aggregatedNotification_def key split_shader_prefix Let_def
    using errs msg by simp
qed

text \<open>What it builds under the key of a runtime error.\<close>

lemma aggregatedNotification_webgl:
  assumes "prefix ''webgl:'' key"
  shows "\<exists>n. aggregatedNotification now key batch = Inr n
       \<and> severity n = (if totalCount batch > 100 then severity_error else severity_warning)
       \<and> type_n n = webgl_error_general
       \<and> (\<exists>a. error_n n = General a \<and> count_a a = totalCount batch
             \<and> message_a a = createWebGLErrorSummary (join '':'' (tl (split CHR '':'' key)))
                  (totalCount batch) (uniq (map message (webglErrorsOf (errors batch)))))"
proof -
  from assms obtain rest where key: "key = ''webgl:'' @ rest"
    by (auto simp: prefix_def)
  show ?thesis
    unfolding aggregatedNotification_def key split_webgl_prefix Let_def
    by simp
qed

lemma key_prefix_cases: "prefix ''shader:'' (getErrorKey e) \<or> prefix ''webgl:'' (getErrorKey e)"
  by (cases e) (simp_all add: getErrorKey_def)

lemma typed_group_builds:
  assumes "errors b \<noteq> []" and "list_all (\<lambda>e. getErrorKey e = k) (errors b)"
  shows "\<exists>n. aggregatedNotification now k b = Inr n"
proof -
  from assms(1) obtain e es where errs: "errors b = e # es" by (cases "errors b") auto
  with assms(2) have k: "getErrorKey e = k" by simp
  from key_prefix_cases [of e] show ?thesis
  proof
    assume "prefix ''shader:'' (getErrorKey e)"
    with k have p: "prefix ''shader:'' k" by simp
    then have "shaderErrorsOf (errors b) \<noteq> []"
      using shaderErrorsOf_typed assms by blast
    with p show ?thesis
      using aggregatedNotification_shader by blast
  next
    assume "prefix ''webgl:'' (getErrorKey e)"
    with k have "prefix ''webgl:'' k" by simp
    then show ?thesis
      using aggregatedNotification_webgl by blast
  qed
qed

lemma groupsTyped_builds:
  "groupsTyped gs \<Longrightarrow> list_all (\<lambda>(k, b). \<exists>n. aggregatedNotification now k b = Inr n) gs"
  unfolding groupsTyped_def
  by (auto simp: list_all_iff dest!: typed_group_builds [unfolded list_all_iff])

subsection \<open>What a flush sends\<close>

lemma sendAggregatedNotification_Inr:
  "aggregatedNotification now k b = Inr n \<Longrightarrow>
   sendAggregatedNotification transport now k b s =
     (None, s\<lparr>sink := sink s @ [(n, transport (length (sink s)) n)],
              console := (if transport (length (sink s)) n then console s
                          else console s @ [''[MCP] Failed to send notification:''])\<rparr>)"
  by (simp only: sendAggregatedNotification_def sum.case sendWebGLNotification_eq)

lemma sendAll_sends_every_group:
  "list_all (\<lambda>(k, b). \<exists>n. aggregatedNotification now k b = Inr n) gs \<Longrightarrow>
   fst (sendAll transport now gs s) = None
   \<and> map fst (sink (snd (sendAll transport now gs s)))
       = map fst (sink s) @ map (\<lambda>(k, b). projr (aggregatedNotification now k b)) gs"
proof (induction gs arbitrary: s)
  case Nil
  then show ?case by simp
next
  case (Cons g gs)
  obtain k b where g: "g = (k, b)" by (cases g)
  from Cons.prems g obtain n where n: "aggregatedNotification now k b = Inr n"
    and rest: "list_all (\<lambda>(k, b). \<exists>n. aggregatedNotification now k b = Inr n) gs"
    by auto
  let ?s1 = "s\<lparr>sink := sink s @ [(n, transport (length (sink s)) n)],
              console := (if transport (length (sink s)) n then console s
                          else console s @ [''[MCP] Failed to send notification:''])\<rparr>"
  have step: "sendAll transport now (g # gs) s = sendAll transport now gs ?s1"
    by (simp add: g sendAggregatedNotification_Inr [OF n] andThen_def)
  have "map fst (sink ?s1) = map fst (sink s) @ [n]"
    by simp
  with Cons.IH [OF rest, of ?s1] show ?case
    unfolding step by (simp add: g n)
qed

lemma processBatch_flush:
  assumes "isActive s" and "\<not> isProcessing s" and "groupsTyped (errorBatch s)"
  shows "map fst (sink (snd (processBatch transport now s)))
           = map fst (sink s) @ map (\<lambda>(k, b). projr (aggregatedNotification now k b)) (errorBatch s)"
    and "errorBatch (snd (processBatch transport now s)) = []"
proof -
  let ?s1 = "s\<lparr>isProcessing := True, errorBatch := []\<rparr>"
  have builds: "list_all (\<lambda>(k, b). \<exists>n. aggregatedNotification now k b = Inr n) (errorBatch s)"
    using assms(3) by (rule groupsTyped_builds)
  obtain r s2 where all: "sendAll transport now (errorBatch s) ?s1 = (r, s2)"
    by (cases "sendAll transport now (errorBatch s) ?s1")
  from sendAll_sends_every_group [OF builds, of transport ?s1] all
  have r: "r = None" and sk: "map fst (sink s2)
      = map fst (sink s) @ map (\<lambda>(k, b). projr (aggregatedNotification now k b)) (errorBatch s)"
    by simp_all
  obtain sk cs where s2: "s2 = ?s1\<lparr>sink := sk, console := cs\<rparr>"
    using sendAll_shape [of transport now "errorBatch s" ?s1] all by auto
  show "map fst (sink (snd (processBatch transport now s)))
           = map fst (sink s) @ map (\<lambda>(k, b). projr (aggregatedNotification now k b)) (errorBatch s)"
  proof (cases "errorBatch s = []")
    case True
    then show ?thesis by (simp add: processBatch_def)
  next
    case False
    with assms all r sk show ?thesis
      by (simp add: processBatch_def)
  qed
  show "errorBatch (snd (processBatch transport now s)) = []"
  proof (cases "errorBatch s = []")
    case True
    then show ?thesis by (simp add: processBatch_def)
  next
    case False
    with assms all r s2 show ?thesis
      by (simp add: processBatch_def)
  qed
qed
subsection \<open>Groups stay well typed\<close>

lemma groupsTyped_Nil [simp]: "groupsTyped []"
  by (simp add: groupsTyped_def)

lemma list_all_update:
  "P (k, v) \<Longrightarrow> list_all P gs \<Longrightarrow> list_all P (AList.update k v gs)"
  by (induction gs) auto

lemma groupsTyped_update:
  assumes "groupsTyped gs" and "errors v \<noteq> []" and "list_all (\<lambda>e. getErrorKey e = k) (errors v)"
  shows "groupsTyped (AList.update k v gs)"
  using assms unfolding groupsTyped_def
  by (simp add: list_all_update distinct_update)

lemma groupsTyped_lookup:
  assumes "groupsTyped gs" and "map_of gs k = Some b"
  shows "errors b \<noteq> [] \<and> list_all (\<lambda>e. getErrorKey e = k) (errors b)"
proof -
  from assms(2) have "(k, b) \<in> set gs" by (rule map_of_SomeD)
  with assms(1) show ?thesis
    by (auto simp: groupsTyped_def list_all_iff)
qed

lemma processBatch_errorBatch_cases:
  "errorBatch (snd (processBatch transport now s)) = errorBatch s
   \<or> errorBatch (snd (processBatch transport now s)) = []"
proof (cases "\<not> isActive s \<or> isProcessing s \<or> length (errorBatch s) = 0")
  case True
  then show ?thesis by (simp add: processBatch_def)
next
  case False
  let ?s1 = "s\<lparr>isProcessing := True, errorBatch := []\<rparr>"
  obtain r s2 where all: "sendAll transport now (errorBatch s) ?s1 = (r, s2)"
    by (cases "sendAll transport now (errorBatch s) ?s1")
  obtain sk cs where s2: "s2 = ?s1\<lparr>sink := sk, console := cs\<rparr>"
    using sendAll_shape [of transport now "errorBatch s" ?s1] all by auto
  from False all s2 have "errorBatch (snd (processBatch transport now s)) = []"
    by (cases r) (simp_all add: processBatch_def)
  then show ?thesis ..
qed

lemma processBatch_groupsTyped:
  "groupsTyped (errorBatch s) \<Longrightarrow> groupsTyped (errorBatch (snd (processBatch transport now s)))"
  using processBatch_errorBatch_cases [of transport now s] by auto

lemma addError_groups_typed:
  assumes "groupsTyped (errorBatch s)"
  shows "groupsTyped (errorBatch (snd (addError transport now e s)))"
proof (cases "isActive s")
  case False
  with assms show ?thesis by simp
next
  case True
  let ?s1 = "s\<lparr>totalErrorCount := totalErrorCount s + errorCount e\<rparr>"
  show ?thesis
  proof (cases "maxErrorsBeforeStop s \<le> totalErrorCount s + errorCount e")
    case stop: True
    with True assms show ?thesis
      by (simp add: addError_def Let_def)
  next
    case below: False
    let ?k = "getErrorKey e"
    show ?thesis
    proof (cases "map_of (errorBatch s) ?k")
      case None
      let ?new = "\<lparr>errors = [e], firstSeen = now, lastSeen = now, totalCount = errorCount e\<rparr>"
      let ?s2 = "?s1\<lparr>errorBatch := AList.update ?k ?new (errorBatch s)\<rparr>"
      have typed: "groupsTyped (errorBatch ?s2)"
        using groupsTyped_update [OF assms, of ?new ?k] by simp
      have "addError transport now e s = processBatch transport now ?s2
          \<or> addError transport now e s = (None, ?s2)"
        using True below None by (simp add: addError_def Let_def)
      then show ?thesis
        using typed processBatch_groupsTyped [of ?s2 transport now] by auto
    next
      case (Some existing)
      let ?new = "existing\<lparr>errors := errors existing @ [e], lastSeen := now,
                       totalCount := totalCount existing + errorCount e\<rparr>"
      let ?s2 = "?s1\<lparr>errorBatch := AList.update ?k ?new (errorBatch s)\<rparr>"
      have "errors ?new \<noteq> [] \<and> list_all (\<lambda>x. getErrorKey x = ?k) (errors ?new)"
        using groupsTyped_lookup [OF assms Some] by simp
      then have typed: "groupsTyped (errorBatch ?s2)"
        using groupsTyped_update [OF assms, of ?new ?k] by simp
      have "addError transport now e s = processBatch transport now ?s2
          \<or> addError transport now e s = (None, ?s2)"
        using True below Some by (simp add: addError_def Let_def)
      then show ?thesis
        using typed processBatch_groupsTyped [of ?s2 transport now] by auto
    qed
  qed
qed

lemma dispatch_groupsTyped:
  assumes "groupsTyped (errorBatch s)"
  shows "groupsTyped (errorBatch (snd (dispatch transport now c s)))"
proof (cases c)
  case Start
  with assms show ?thesis
    by (simp add: start_def Let_def startBatchTimer_def)
next
  case (AddError e)
  with assms show ?thesis
    by (simp add: addError_groups_typed)
next
  case BatchTimer
  have "errorBatch (snd (batchTimerFired transport now s))
      = errorBatch (snd (processBatch transport now s)) \<or>
        errorBatch (snd (batchTimerFired transport now s)) = errorBatch s"
    by (simp add: batchTimerFired_def split: prod.split)
  with BatchTimer assms show ?thesis
    using processBatch_groupsTyped [OF assms, of transport now]
    by (auto split: if_splits)
qed (use assms in simp_all)

lemma run_groupsTyped:
  "groupsTyped (errorBatch s) \<Longrightarrow> groupsTyped (errorBatch (snd (run transport cs s)))"
proof (induction cs arbitrary: s)
  case Nil
  then show ?case by simp
next
  case (Cons tc cs)
  obtain now c where tc: "tc = (now, c)" by (cases tc)
  have "groupsTyped (errorBatch (snd (dispatch transport now c s)))"
    using Cons.prems by (rule dispatch_groupsTyped)
  then have "groupsTyped (errorBatch (snd (run transport cs (snd (dispatch transport now c s)))))"
    by (rule Cons.IH)
  then show ?case
    unfolding tc run_Cons_snd .
qed

subsection \<open>Every reachable aggregator is idle between calls, with well-typed groups\<close>

lemma addError_isProcessing [simp]:
  "isProcessing (snd (addError transport now e s)) = isProcessing s"
  by (simp add: addError_def Let_def split: option.split)

lemma batchTimerFired_isProcessing [simp]:
  "isProcessing (snd (batchTimerFired transport now s)) = isProcessing s"
proof -
  obtain r s1 where pb: "processBatch transport now s = (r, s1)"
    by (cases "processBatch transport now s")
  have "isProcessing s1 = isProcessing s"
    using processBatch_isProcessing [of transport now s] pb by simp
  with pb show ?thesis
    by (simp add: batchTimerFired_def startBatchTimer_def)
qed

lemma dispatch_isProcessing:
  "isProcessing (snd (dispatch transport now c s)) = isProcessing s"
  by (cases c) (simp_all add: start_def Let_def startBatchTimer_def)

lemma run_isProcessing:
  "isProcessing (snd (run transport cs s)) = isProcessing s"
proof (induction cs arbitrary: s)
  case Nil
  then show ?case by simp
next
  case (Cons tc cs)
  obtain now c where tc: "tc = (now, c)" by (cases tc)
  have "isProcessing (snd (run transport cs (snd (dispatch transport now c s))))
      = isProcessing (snd (dispatch transport now c s))"
    by (rule Cons.IH)
  then show ?case
    unfolding tc run_Cons_snd by (simp only: dispatch_isProcessing)
qed

lemma reachable_idle_and_typed:
  "\<not> isProcessing (snd (run transport cs (createErrorAggregator bi mbs cd mebs)))
   \<and> groupsTyped (errorBatch (snd (run transport cs (createErrorAggregator bi mbs cd mebs))))"
  using run_groupsTyped [of "createErrorAggregator bi mbs cd mebs" transport cs]
  by (simp add: run_isProcessing)

text \<open>
  Claim C10. A group whose signature begins \<open>shader:\<close> (the signature of every shader
  error does) and that holds what \<open>addError\<close> puts under that signature is sent as one
  notification of severity error, whatever its size and its total count. Under the
  signature of a runtime error the notification is of severity error when the total
  count is above 100 and of severity warning otherwise.
\<close>

theorem shader_groups_have_severity_error:
  "(prefix ''shader:'' key \<and> errors batch \<noteq> []
      \<and> list_all (\<lambda>e. getErrorKey e = key) (errors batch) \<longrightarrow>
      (\<exists>n. fst (sendAggregatedNotification transport now key batch s) = None
         \<and> map fst (sink (snd (sendAggregatedNotification transport now key batch s)))
             = map fst (sink s) @ [n]
         \<and> severity n = severity_error))
   \<and> prefix ''shader:'' (getErrorKey (Shader se))
   \<and> (\<exists>n. map fst (sink (snd (sendAggregatedNotification transport now
                 (getErrorKey (Runtime we)) batch s)))
             = map fst (sink s) @ [n]
         \<and> severity n = (if totalCount batch > 100 then severity_error else severity_warning))"
proof (intro conjI impI)
  assume h: "prefix ''shader:'' key \<and> errors batch \<noteq> []
      \<and> list_all (\<lambda>e. getErrorKey e = key) (errors batch)"
  then have "shaderErrorsOf (errors batch) \<noteq> []"
    using shaderErrorsOf_typed by blast
  with h obtain n where n: "aggregatedNotification now key batch = Inr n"
    and sev: "severity n = severity_error"
    using aggregatedNotification_shader by blast
  have "fst (sendAggregatedNotification transport now key batch s) = None
      \<and> map fst (sink (snd (sendAggregatedNotification transport now key batch s)))
          = map fst (sink s) @ [n]"
    by (simp add: sendAggregatedNotification_Inr [OF n])
  with sev show "\<exists>n. fst (sendAggregatedNotification transport now key batch s) = None
         \<and> map fst (sink (snd (sendAggregatedNotification transport now key batch s)))
             = map fst (sink s) @ [n]
         \<and> severity n = severity_error"
    by blast
next
  show "prefix ''shader:'' (getErrorKey (Shader se))"
    by (rule getErrorKey_Shader_prefix)
next
  obtain n where n: "aggregatedNotification now (getErrorKey (Runtime we)) batch = Inr n"
    and sev: "severity n = (if totalCount batch > 100 then severity_error else severity_warning)"
    using aggregatedNotification_webgl [OF getErrorKey_Runtime_prefix] by blast
  have "map fst (sink (snd (sendAggregatedNotification transport now
                 (getErrorKey (Runtime we)) batch s)))
          = map fst (sink s) @ [n]"
    by (simp add: sendAggregatedNotification_Inr [OF n])
  with sev show "\<exists>n. map fst (sink (snd (sendAggregatedNotification transport now
                 (getErrorKey (Runtime we)) batch s)))
             = map fst (sink s) @ [n]
         \<and> severity n = (if totalCount batch > 100 then severity_error else severity_warning)"
    by blast
qed

theorem shader_groups_have_severity_error_witness:
  "severity (last (map fst (sink (snd (sendAggregatedNotification (\<lambda>k n. True) 1000
       ''shader:shader_compilation:fragment''
       \<lparr>errors = [Shader \<lparr>id_s = ''b'', type_s = shader_compilation, shaderType = Some fragment,
            source = None, errorLog = ''ERROR: 0:3: syntax error'', lineNumber = None,
            columnNumber = None, timestamp_s = 7, url_s = None, programId = None,
            shaderId = None\<rparr>],
          firstSeen = 7, lastSeen = 7, totalCount = 1\<rparr>
       (start 0 (createErrorAggregator None None None None))))))) = severity_error"
proof -
  let ?se = "\<lparr>id_s = ''b'', type_s = shader_compilation, shaderType = Some fragment,
            source = None, errorLog = ''ERROR: 0:3: syntax error'', lineNumber = None,
            columnNumber = None, timestamp_s = 7, url_s = None, programId = None,
            shaderId = None\<rparr>"
  let ?b = "\<lparr>errors = [Shader ?se], firstSeen = 7, lastSeen = 7, totalCount = 1\<rparr>"
  let ?k = "''shader:shader_compilation:fragment''"
  let ?s = "start 0 (createErrorAggregator None None None None)"
  have h: "prefix ''shader:'' ?k \<and> errors ?b \<noteq> []
      \<and> list_all (\<lambda>e. getErrorKey e = ?k) (errors ?b)"
    by (simp add: getErrorKey_def shaderTypeOrProgram_def)
  from shader_groups_have_severity_error [of ?k ?b "\<lambda>k n. True" 1000 ?s ?se] h
  obtain n where "map fst (sink (snd (sendAggregatedNotification (\<lambda>k n. True) 1000 ?k ?b ?s)))
      = map fst (sink ?s) @ [n]" and "severity n = severity_error"
    by blast
  then show ?thesis by simp
qed

lemma showNat_150: "showNat 150 = ''150''"
  by (simp add: showNat.simps)

lemma useProgram_summary:
  "totalCnt \<noteq> 1 \<Longrightarrow>
   createWebGLErrorSummary ''INVALID_OPERATION:useProgram'' totalCnt msgs
     = Some (''WebGL: INVALID_OPERATION: useProgram: program not valid (''
             @ showNat totalCnt @ '' occurrences)'')"
  by (simp add: createWebGLErrorSummary_def)

text \<open>
  Claim C5. During a flush (\<open>processBatch\<close> on an Active aggregator that is not already
  flushing), every open group is sent as one notification, in order, and the map is
  emptied. Exactly one group has the signature \<open>webgl:INVALID_OPERATION:useProgram\<close>; with
  a total count of 150 its notification has severity error, count 150 and the message
  \<open>WebGL: INVALID_OPERATION: useProgram: program not valid (150 occurrences)\<close>. A group of
  that signature with a total count of at most 100 is sent with severity warning.
\<close>

theorem useProgram_150_flushed_once_as_error:
  assumes "isActive s" and "\<not> isProcessing s" and "groupsTyped (errorBatch s)"
    and "i < length (errorBatch s)"
    and "errorBatch s ! i = (''webgl:INVALID_OPERATION:useProgram'', batch)"
    and "totalCount batch = 150"
  shows "length (sink (snd (processBatch transport now s)))
           = length (sink s) + length (errorBatch s)
       \<and> (\<forall>j < length (errorBatch s).
             fst (errorBatch s ! j) = ''webgl:INVALID_OPERATION:useProgram'' \<longrightarrow> j = i)
       \<and> severity (fst (sink (snd (processBatch transport now s)) ! (length (sink s) + i)))
           = severity_error
       \<and> (\<exists>a. error_n (fst (sink (snd (processBatch transport now s)) ! (length (sink s) + i)))
                 = General a
             \<and> count_a a = 150
             \<and> message_a a = Some
                 ''WebGL: INVALID_OPERATION: useProgram: program not valid (150 occurrences)'')
       \<and> errorBatch (snd (processBatch transport now s)) = []
       \<and> (\<forall>b. totalCount b \<le> 100 \<longrightarrow>
             (\<exists>n. aggregatedNotification now ''webgl:INVALID_OPERATION:useProgram'' b = Inr n
                \<and> severity n = severity_warning))"
proof -
  let ?k = "''webgl:INVALID_OPERATION:useProgram''"
  let ?s' = "snd (processBatch transport now s)"
  let ?F = "\<lambda>(k, b). projr (aggregatedNotification now k b)"
  have sent: "map fst (sink ?s') = map fst (sink s) @ map ?F (errorBatch s)"
    and cleared: "errorBatch ?s' = []"
    using processBatch_flush [OF assms(1-3)] by simp_all
  from sent have "length (map fst (sink ?s')) = length (map fst (sink s) @ map ?F (errorBatch s))"
    by simp
  then have len: "length (sink ?s') = length (sink s) + length (errorBatch s)"
    by simp
  have "fst (sink ?s' ! (length (sink s) + i)) = map fst (sink ?s') ! (length (sink s) + i)"
    using len assms(4) by simp
  also have "\<dots> = map ?F (errorBatch s) ! i"
    unfolding sent by (simp add: nth_append)
  also have "\<dots> = projr (aggregatedNotification now ?k batch)"
    using assms(4,5) by simp
  finally have nth: "fst (sink ?s' ! (length (sink s) + i))
      = projr (aggregatedNotification now ?k batch)" .
  have pre: "prefix ''webgl:'' ?k" by simp
  obtain n a where n: "aggregatedNotification now ?k batch = Inr n"
    and sev: "severity n = (if totalCount batch > 100 then severity_error else severity_warning)"
    and a: "error_n n = General a" "count_a a = totalCount batch"
      "message_a a = createWebGLErrorSummary (join '':'' (tl (split CHR '':'' ?k)))
          (totalCount batch) (uniq (map message (webglErrorsOf (errors batch))))"
    using aggregatedNotification_webgl [OF pre, of now batch] by blast
  have msg: "message_a a = Some
      ''WebGL: INVALID_OPERATION: useProgram: program not valid (150 occurrences)''"
    using a(3) assms(6) by (simp add: useProgram_summary showNat_150)
  have once: "\<forall>j < length (errorBatch s). fst (errorBatch s ! j) = ?k \<longrightarrow> j = i"
  proof (intro allI impI)
    fix j assume j: "j < length (errorBatch s)" and kj: "fst (errorBatch s ! j) = ?k"
    have d: "distinct (map fst (errorBatch s))"
      using assms(3) by (simp add: groupsTyped_def)
    have "map fst (errorBatch s) ! j = map fst (errorBatch s) ! i"
      using j kj assms(4,5) by simp
    then show "j = i"
      using nth_eq_iff_index_eq [OF d, of j i] j assms(4) by simp
  qed
  have warn: "\<forall>b. totalCount b \<le> 100 \<longrightarrow>
      (\<exists>n. aggregatedNotification now ?k b = Inr n \<and> severity n = severity_warning)"
  proof (intro allI impI)
    fix b :: ErrorBatch assume "totalCount b \<le> 100"
    then show "\<exists>n. aggregatedNotification now ?k b = Inr n \<and> severity n = severity_warning"
      using aggregatedNotification_webgl [OF pre, of now b] by auto
  qed
  from nth n sev a(1,2) msg assms(6) len once cleared warn show ?thesis
    by simp
qed

theorem useProgram_150_flushed_once_as_error_witness:
  "length (sink (snd (processBatch (\<lambda>k n. True) 1000
       (snd (addError (\<lambda>k n. True) 5
          (Runtime \<lparr>id_w = ''a'',
             message = ''WebGL: INVALID_OPERATION: useProgram: program not valid'',
             stackTrace = None, timestamp_w = 5, count = 150, url_w = None,
             functionName = None\<rparr>)
          (start 0 (createErrorAggregator None None None None))))))) = 1
   \<and> severity (fst (sink (snd (processBatch (\<lambda>k n. True) 1000
       (snd (addError (\<lambda>k n. True) 5
          (Runtime \<lparr>id_w = ''a'',
             message = ''WebGL: INVALID_OPERATION: useProgram: program not valid'',
             stackTrace = None, timestamp_w = 5, count = 150, url_w = None,
             functionName = None\<rparr>)
          (start 0 (createErrorAggregator None None None None)))))) ! 0)) = severity_error"
proof -
  let ?e = "Runtime \<lparr>id_w = ''a'',
             message = ''WebGL: INVALID_OPERATION: useProgram: program not valid'',
             stackTrace = None, timestamp_w = 5, count = 150, url_w = None,
             functionName = None\<rparr>"
  let ?t = "\<lambda>(k::nat) (n::WebGLNotification). True"
  let ?s0 = "start 0 (createErrorAggregator None None None None)"
  let ?s1 = "snd (addError ?t 5 ?e ?s0)"
  let ?b = "\<lparr>errors = [?e], firstSeen = 5, lastSeen = 5, totalCount = 150\<rparr>"
  have key: "\<And>w. message w = ''WebGL: INVALID_OPERATION: useProgram: program not valid''
      \<Longrightarrow> getErrorKey (Runtime w) = ''webgl:INVALID_OPERATION:useProgram''"
    by (simp add: getErrorKey_def extractErrorType_def matchTail_def isSpaceChar_def
        isCodeChar_def isWordChar_def isLineTerminator_def)
  have active: "isActive ?s1"
    by (rule addError_below_threshold_active) simp_all
  have groups: "errorBatch ?s1 = [(''webgl:INVALID_OPERATION:useProgram'', ?b)]"
    by (simp add: addError_def Let_def key)
  have idle: "\<not> isProcessing ?s1"
    by (simp add: addError_def Let_def key)
  have sink: "sink ?s1 = []"
    by (simp add: addError_def Let_def key)
  have typed: "groupsTyped (errorBatch ?s1)"
    by (rule addError_groups_typed) simp
  have i: "(0::nat) < length (errorBatch ?s1)"
    by (simp add: groups)
  have at: "errorBatch ?s1 ! 0 = (''webgl:INVALID_OPERATION:useProgram'', ?b)"
    by (simp add: groups)
  have cnt: "totalCount ?b = 150"
    by simp
  show ?thesis
    using useProgram_150_flushed_once_as_error [OF active idle typed i at cnt, of ?t 1000]
      groups sink
    by simp
qed

text \<open>
  Claim C9. Whatever the transport does, no exception leaves \<open>start\<close>, \<open>addError\<close>,
  \<open>stop\<close>, \<open>destroy\<close>, a timer callback, a flush or the session summary, alone or in any
  history of calls. A notification that the transport refuses is recorded as attempted
  and \<open>sendWebGLNotification\<close> logs the failure and returns normally. A flush goes on
  after a refusal: it attempts one notification for every open group, \<open>isProcessing\<close> is
  false again afterwards, and the batch timer is armed again after its callback.
\<close>

theorem sink_failure_never_propagates:
  "fst (run transport cs s) = None
   \<and> fst (dispatch transport now c s) = None
   \<and> fst (addError transport now e s) = None
   \<and> fst (stop transport now s) = None
   \<and> fst (processBatch transport now s) = None
   \<and> fst (sendFinalSummary transport now s) = None
   \<and> (\<not> transport (length (sink s)) n \<longrightarrow>
        sendWebGLNotification transport n s =
          (None, s\<lparr>sink := sink s @ [(n, False)],
                   console := console s @ [''[MCP] Failed to send notification:'']\<rparr>))
   \<and> (isActive s \<and> \<not> isProcessing s \<and> groupsTyped (errorBatch s) \<longrightarrow>
        length (sink (snd (processBatch transport now s)))
          = length (sink s) + length (errorBatch s)
        \<and> isProcessing (snd (processBatch transport now s)) = False
        \<and> isActive (snd (processBatch transport now s)))
   \<and> (isActive s \<and> batchTimer s \<longrightarrow>
        batchTimer (snd (dispatch transport now BatchTimer s))
        \<and> isActive (snd (dispatch transport now BatchTimer s)))"
proof -
  have refused: "\<not> transport (length (sink s)) n \<longrightarrow>
        sendWebGLNotification transport n s =
          (None, s\<lparr>sink := sink s @ [(n, False)],
                   console := console s @ [''[MCP] Failed to send notification:'']\<rparr>)"
    by (simp add: sendWebGLNotification_eq)
  have flush: "isActive s \<and> \<not> isProcessing s \<and> groupsTyped (errorBatch s) \<longrightarrow>
        length (sink (snd (processBatch transport now s)))
          = length (sink s) + length (errorBatch s)
        \<and> isProcessing (snd (processBatch transport now s)) = False
        \<and> isActive (snd (processBatch transport now s))"
  proof
    assume h: "isActive s \<and> \<not> isProcessing s \<and> groupsTyped (errorBatch s)"
    then have "map fst (sink (snd (processBatch transport now s)))
        = map fst (sink s) @ map (\<lambda>(k, b). projr (aggregatedNotification now k b)) (errorBatch s)"
      using processBatch_flush(1) by blast
    then have "length (map fst (sink (snd (processBatch transport now s))))
        = length (map fst (sink s) @ map (\<lambda>(k, b). projr (aggregatedNotification now k b)) (errorBatch s))"
      by (rule arg_cong)
    then have "length (sink (snd (processBatch transport now s)))
        = length (sink s) + length (errorBatch s)"
      by simp
    with h show "length (sink (snd (processBatch transport now s)))
          = length (sink s) + length (errorBatch s)
        \<and> isProcessing (snd (processBatch transport now s)) = False
        \<and> isActive (snd (processBatch transport now s))"
      by simp
  qed
  have timer: "isActive s \<and> batchTimer s \<longrightarrow>
        batchTimer (snd (dispatch transport now BatchTimer s))
        \<and> isActive (snd (dispatch transport now BatchTimer s))"
  proof
    assume h: "isActive s \<and> batchTimer s"
    obtain r s1 where pb: "processBatch transport now s = (r, s1)"
      by (cases "processBatch transport now s")
    have "isActive s1 = isActive s"
      using processBatch_isActive [of transport now s] pb by simp
    with h pb show "batchTimer (snd (dispatch transport now BatchTimer s))
        \<and> isActive (snd (dispatch transport now BatchTimer s))"
      by (simp add: batchTimerFired_def startBatchTimer_def)
  qed
  from refused flush timer show ?thesis
    by simp
qed

theorem sink_failure_never_propagates_witness:
  "fst (run (\<lambda>k n. False)
       [(0, Start),
        (5, AddError (Runtime \<lparr>id_w = ''a'',
             message = ''WebGL: INVALID_OPERATION: useProgram: program not valid'',
             stackTrace = None, timestamp_w = 5, count = 150, url_w = None,
             functionName = None\<rparr>)),
        (1000, BatchTimer),
        (9000, Stop)]
       (createErrorAggregator None None None None)) = None
   \<and> length (sink (snd (processBatch (\<lambda>k n. False) 1000
       (snd (addError (\<lambda>k n. False) 5
          (Runtime \<lparr>id_w = ''a'',
             message = ''WebGL: INVALID_OPERATION: useProgram: program not valid'',
             stackTrace = None, timestamp_w = 5, count = 150, url_w = None,
             functionName = None\<rparr>)
          (start 0 (createErrorAggregator None None None None))))))) = 1
   \<and> isProcessing (snd (processBatch (\<lambda>k n. False) 1000
       (snd (addError (\<lambda>k n. False) 5
          (Runtime \<lparr>id_w = ''a'',
             message = ''WebGL: INVALID_OPERATION: useProgram: program not valid'',
             stackTrace = None, timestamp_w = 5, count = 150, url_w = None,
             functionName = None\<rparr>)
          (start 0 (createErrorAggregator None None None None)))))) = False"
proof -
  let ?e = "Runtime \<lparr>id_w = ''a'',
             message = ''WebGL: INVALID_OPERATION: useProgram: program not valid'',
             stackTrace = None, timestamp_w = 5, count = 150, url_w = None,
             functionName = None\<rparr>"
  let ?t = "\<lambda>(k::nat) (n::WebGLNotification). False"
  let ?s0 = "start 0 (createErrorAggregator None None None None)"
  let ?s1 = "snd (addError ?t 5 ?e ?s0)"
  let ?cs = "[(0, Start), (5, AddError ?e), (1000, BatchTimer), (9000, Stop)]"
  have key: "\<And>w. message w = ''WebGL: INVALID_OPERATION: useProgram: program not valid''
      \<Longrightarrow> getErrorKey (Runtime w) = ''webgl:INVALID_OPERATION:useProgram''"
    by (simp add: getErrorKey_def extractErrorType_def matchTail_def isSpaceChar_def
        isCodeChar_def isWordChar_def isLineTerminator_def)
  have active: "isActive ?s1"
    by (rule addError_below_threshold_active) simp_all
  have groups: "length (errorBatch ?s1) = 1"
    by (simp add: addError_def Let_def key)
  have idle: "\<not> isProcessing ?s1"
    by (simp add: addError_def Let_def key)
  have sink: "sink ?s1 = []"
    by (simp add: addError_def Let_def key)
  have typed: "groupsTyped (errorBatch ?s1)"
    by (rule addError_groups_typed) simp
  have history: "fst (run ?t ?cs (createErrorAggregator None None None None)) = None"
    using sink_failure_never_propagates
      [of ?t ?cs "createErrorAggregator None None None None" 0 Start ?e]
    by blast
  have "length (sink (snd (processBatch ?t 1000 ?s1))) = length (sink ?s1) + length (errorBatch ?s1)
        \<and> isProcessing (snd (processBatch ?t 1000 ?s1)) = False"
    using sink_failure_never_propagates [of ?t "[]" ?s1 1000 Start ?e] active idle typed
    by blast
  with history groups sink show ?thesis
    by simp
qed

subsection \<open>The two regular expressions\<close>

lemma code_not_space: "isCodeChar c \<Longrightarrow> \<not> isSpaceChar c"
  by (auto simp: isCodeChar_def isSpaceChar_def Let_def)

lemma word_not_space: "isWordChar c \<Longrightarrow> \<not> isSpaceChar c"
  by (auto simp: isWordChar_def isSpaceChar_def Let_def)

lemma code_is_word: "isCodeChar c \<Longrightarrow> isWordChar c"
  by (auto simp: isWordChar_def isCodeChar_def Let_def)

lemma colon_not_code [simp]: "\<not> isCodeChar CHR '':''"
  by (simp add: isCodeChar_def)

lemma dropWhile_run:
  assumes "list_all P xs" and "ys = [] \<or> \<not> P (hd ys)"
  shows "dropWhile P (xs @ ys) = ys"
  using assms by (cases ys) (auto simp: list_all_iff dropWhile_append2)

lemma takeWhile_run:
  assumes "list_all P xs" and "ys = [] \<or> \<not> P (hd ys)"
  shows "takeWhile P (xs @ ys) = xs"
  using assms by (cases ys) (auto simp: list_all_iff takeWhile_append2)

lemma list_all_takeWhile [simp]: "list_all P (takeWhile P xs)"
  by (induction xs) auto

lemma dropWhile_stops: "dropWhile P xs = [] \<or> \<not> P (hd (dropWhile P xs))"
  by (induction xs) auto

lemma matchTail_structured:
  assumes ws1: "list_all isSpaceChar ws1"
    and code: "code \<noteq> []" "list_all isCodeChar code"
    and ws2: "list_all isSpaceChar ws2"
    and opn: "opn \<noteq> []" "list_all isWordChar opn"
    and rest: "rest = [] \<or> \<not> isWordChar (hd rest)"
  shows "matchTail ('':'' @ ws1 @ code @ '':'' @ ws2 @ opn @ rest) = Some (code, opn)"
proof -
  let ?after_code = "'':'' @ ws2 @ opn @ rest"
  have c0: "\<not> isSpaceChar (hd (code @ ?after_code))"
    using code by (cases code) (auto simp: code_not_space)
  have d1: "dropWhile isSpaceChar (ws1 @ code @ ?after_code) = code @ ?after_code"
    using dropWhile_run [OF ws1, of "code @ ?after_code"] c0 by simp
  have t1: "takeWhile isCodeChar (code @ ?after_code) = code"
    using takeWhile_run [OF code(2), of ?after_code] by simp
  have d2: "dropWhile isCodeChar (code @ ?after_code) = ?after_code"
    using dropWhile_run [OF code(2), of ?after_code] by simp
  have o0: "\<not> isSpaceChar (hd (opn @ rest))"
    using opn by (cases opn) (auto simp: word_not_space)
  have d3: "dropWhile isSpaceChar (ws2 @ opn @ rest) = opn @ rest"
    using dropWhile_run [OF ws2, of "opn @ rest"] o0 by simp
  have t2: "takeWhile isWordChar (opn @ rest) = opn"
    using takeWhile_run [OF opn(2) rest] .
  show ?thesis
    using code(1) opn(1) d1 t1 d2 d3 t2 by (simp add: matchTail_def)
qed

lemma matchTail_sound:
  assumes "matchTail s = Some (code, opn)"
  shows "tailMatch s code opn"
proof -
  from assms obtain r where s: "s = CHR '':'' # r"
    by (cases s) (auto simp: matchTail_def split: if_splits)
  define r1 where "r1 = dropWhile isSpaceChar r"
  define r2 where "r2 = dropWhile isCodeChar r1"
  from assms have code: "code = takeWhile isCodeChar r1" and code_ne: "code \<noteq> []"
    unfolding s matchTail_def Let_def r1_def
    by (auto split: list.splits if_splits)
  from assms obtain r3 where r2: "r2 = CHR '':'' # r3"
    unfolding s matchTail_def Let_def r1_def r2_def
    by (auto split: list.splits if_splits)
  define r4 where "r4 = dropWhile isSpaceChar r3"
  from assms r2 have opn: "opn = takeWhile isWordChar r4" and opn_ne: "opn \<noteq> []"
    unfolding s matchTail_def Let_def r1_def r2_def r4_def
    by (auto split: list.splits if_splits)
  let ?ws1 = "takeWhile isSpaceChar r"
  let ?ws2 = "takeWhile isSpaceChar r3"
  let ?rest = "dropWhile isWordChar r4"
  have "r = ?ws1 @ r1" by (simp add: r1_def)
  also have "r1 = code @ r2" by (simp add: code r2_def)
  also have "r2 = '':'' @ r3" by (simp add: r2)
  also have "r3 = ?ws2 @ r4" by (simp add: r4_def)
  also have "r4 = opn @ ?rest" by (simp add: opn)
  finally have "s = '':'' @ ?ws1 @ code @ '':'' @ ?ws2 @ opn @ ?rest"
    by (simp add: s)
  moreover have "list_all isSpaceChar ?ws1" "list_all isCodeChar code"
    "list_all isSpaceChar ?ws2" "list_all isWordChar opn"
    by (simp_all add: code opn)
  moreover have "?rest = [] \<or> \<not> isWordChar (hd ?rest)"
    by (rule dropWhile_stops)
  ultimately show ?thesis
    unfolding tailMatch_def using code_ne opn_ne by blast
qed

lemma matchTail_iff: "matchTail s = Some (code, opn) \<longleftrightarrow> tailMatch s code opn"
proof
  assume "matchTail s = Some (code, opn)"
  then show "tailMatch s code opn" by (rule matchTail_sound)
next
  assume "tailMatch s code opn"
  then show "matchTail s = Some (code, opn)"
    unfolding tailMatch_def using matchTail_structured by blast
qed

lemma matchTail_Nil [simp]: "matchTail [] = None"
  by (simp add: matchTail_def)

text \<open>\<open>.*?\<close>: the first position, not behind a line terminator, where the rest matches.\<close>

lemma matchLazy_Some_D:
  "matchLazy s = Some m \<Longrightarrow>
   \<exists>gap tail. s = gap @ tail \<and> list_all (\<lambda>c. \<not> isLineTerminator c) gap \<and> matchTail tail = Some m
     \<and> (\<forall>gap' tail'. s = gap' @ tail' \<and> length gap' < length gap \<longrightarrow> matchTail tail' = None)"
proof (induction s)
  case Nil
  then show ?case by simp
next
  case (Cons c r)
  show ?case
  proof (cases "matchTail (c # r)")
    case (Some m')
    with Cons.prems have "m' = m" by simp
    with Some have "c # r = [] @ (c # r) \<and> list_all (\<lambda>c. \<not> isLineTerminator c) []
        \<and> matchTail (c # r) = Some m
        \<and> (\<forall>gap' tail'. c # r = gap' @ tail' \<and> length gap' < length ([]::string)
              \<longrightarrow> matchTail tail' = None)"
      by simp
    then show ?thesis by blast
  next
    case None
    with Cons.prems have c: "\<not> isLineTerminator c" and r: "matchLazy r = Some m"
      by (simp_all split: if_splits)
    from Cons.IH [OF r] obtain gap tail where g: "r = gap @ tail"
      "list_all (\<lambda>c. \<not> isLineTerminator c) gap" "matchTail tail = Some m"
      and least: "\<forall>gap' tail'. r = gap' @ tail' \<and> length gap' < length gap \<longrightarrow> matchTail tail' = None"
      by blast
    have "\<forall>gap' tail'. c # r = gap' @ tail' \<and> length gap' < length (c # gap)
        \<longrightarrow> matchTail tail' = None"
    proof (intro allI impI)
      fix gap' tail' assume h: "c # r = gap' @ tail' \<and> length gap' < length (c # gap)"
      show "matchTail tail' = None"
      proof (cases gap')
        case Nil
        with h None show ?thesis by simp
      next
        case (Cons c' gap'')
        with h have "r = gap'' @ tail' \<and> length gap'' < length gap" by simp
        with least show ?thesis by blast
      qed
    qed
    moreover have "c # r = (c # gap) @ tail" using g(1) by simp
    moreover have "list_all (\<lambda>c. \<not> isLineTerminator c) (c # gap)" using c g(2) by simp
    ultimately show ?thesis using g(3) by blast
  qed
qed

lemma matchLazy_None_D:
  "matchLazy s = None \<Longrightarrow> s = gap @ tail \<Longrightarrow> list_all (\<lambda>c. \<not> isLineTerminator c) gap \<Longrightarrow>
   matchTail tail = None"
proof (induction s arbitrary: gap)
  case Nil
  then show ?case by simp
next
  case (Cons c r)
  from Cons.prems(1) have here: "matchTail (c # r) = None"
    by (simp split: option.splits)
  show ?case
  proof (cases gap)
    case Nil
    with Cons.prems(2) here show ?thesis by simp
  next
    case (Cons c' gap')
    with Cons.prems(2,3) have c: "\<not> isLineTerminator c" and r: "r = gap' @ tail"
      and g: "list_all (\<lambda>c. \<not> isLineTerminator c) gap'"
      by simp_all
    from Cons.prems(1) here c have "matchLazy r = None" by simp
    then show ?thesis using r g by (rule Cons.IH)
  qed
qed

lemma matchFrom_Some_D:
  assumes "matchFrom s = Some m"
  shows "\<exists>gap tail. s = ''WebGL'' @ gap @ tail \<and> list_all (\<lambda>c. \<not> isLineTerminator c) gap
     \<and> matchTail tail = Some m
     \<and> (\<forall>gap' tail'. s = ''WebGL'' @ gap' @ tail' \<and> length gap' < length gap
           \<longrightarrow> matchTail tail' = None)"
proof -
  from assms have p: "prefix ''WebGL'' s" and l: "matchLazy (drop 5 s) = Some m"
    by (simp_all add: matchFrom_def split: if_splits)
  from p obtain r where s: "s = ''WebGL'' @ r" by (auto simp: prefix_def)
  then have d: "drop 5 s = r" by simp
  from matchLazy_Some_D [OF l] d obtain gap tail where g: "r = gap @ tail"
    "list_all (\<lambda>c. \<not> isLineTerminator c) gap" "matchTail tail = Some m"
    and least: "\<forall>gap' tail'. r = gap' @ tail' \<and> length gap' < length gap \<longrightarrow> matchTail tail' = None"
    by auto
  have "\<forall>gap' tail'. s = ''WebGL'' @ gap' @ tail' \<and> length gap' < length gap
      \<longrightarrow> matchTail tail' = None"
    using least s by simp
  moreover have "s = ''WebGL'' @ gap @ tail" using s g(1) by simp
  ultimately show ?thesis using g(2,3) by blast
qed

lemma matchFrom_None_D:
  assumes "matchFrom s = None" and "s = ''WebGL'' @ gap @ tail"
    and "list_all (\<lambda>c. \<not> isLineTerminator c) gap"
  shows "matchTail tail = None"
proof -
  from assms(2) have "prefix ''WebGL'' s" and "drop 5 s = gap @ tail" by simp_all
  with assms(1) have "matchLazy (gap @ tail) = None"
    by (simp add: matchFrom_def)
  then show ?thesis using assms(3) by (rule matchLazy_None_D [OF _ refl])
qed

lemma matchFrom_Nil [simp]: "matchFrom [] = None"
  by (simp add: matchFrom_def)

lemma structuredMatch_Cons:
  "structuredMatch (c # r) =
     (case matchFrom (c # r) of Some m \<Rightarrow> Some m | None \<Rightarrow> structuredMatch r)"
  by (simp add: matchFrom_def)

text \<open>The search: the leftmost start at which the pattern matches.\<close>

lemma structuredMatch_Some_D:
  "structuredMatch s = Some m \<Longrightarrow>
   \<exists>pre r. s = pre @ r \<and> matchFrom r = Some m
     \<and> (\<forall>pre' r'. s = pre' @ r' \<and> length pre' < length pre \<longrightarrow> matchFrom r' = None)"
proof (induction s)
  case Nil
  then show ?case by simp
next
  case (Cons c r)
  show ?case
  proof (cases "matchFrom (c # r)")
    case (Some m')
    with Cons.prems have "m' = m" by (simp only: structuredMatch_Cons option.case option.inject)
    with Some have "c # r = [] @ (c # r) \<and> matchFrom (c # r) = Some m
        \<and> (\<forall>pre' r'. c # r = pre' @ r' \<and> length pre' < length ([]::string)
              \<longrightarrow> matchFrom r' = None)"
      by simp
    then show ?thesis by blast
  next
    case None
    with Cons.prems have r: "structuredMatch r = Some m"
      by (simp only: structuredMatch_Cons option.case)
    from Cons.IH [OF r] obtain pre r0 where g: "r = pre @ r0" "matchFrom r0 = Some m"
      and least: "\<forall>pre' r'. r = pre' @ r' \<and> length pre' < length pre \<longrightarrow> matchFrom r' = None"
      by blast
    have "\<forall>pre' r'. c # r = pre' @ r' \<and> length pre' < length (c # pre)
        \<longrightarrow> matchFrom r' = None"
    proof (intro allI impI)
      fix pre' r' assume h: "c # r = pre' @ r' \<and> length pre' < length (c # pre)"
      show "matchFrom r' = None"
      proof (cases pre')
        case Nil
        with h None show ?thesis by simp
      next
        case (Cons c' pre'')
        with h have "r = pre'' @ r' \<and> length pre'' < length pre" by simp
        with least show ?thesis by blast
      qed
    qed
    moreover have "c # r = (c # pre) @ r0" using g(1) by simp
    ultimately show ?thesis using g(2) by blast
  qed
qed

lemma structuredMatch_None_D:
  "structuredMatch s = None \<Longrightarrow> s = pre @ r \<Longrightarrow> matchFrom r = None"
proof (induction s arbitrary: pre)
  case Nil
  then show ?case by simp
next
  case (Cons c s)
  have here: "matchFrom (c # s) = None" and rest: "structuredMatch s = None"
    using Cons.prems(1) unfolding structuredMatch_Cons
    by (cases "matchFrom (c # s)"; simp)+
  show ?case
  proof (cases pre)
    case Nil
    with Cons.prems(2) here show ?thesis by simp
  next
    case (Cons c' pre')
    with Cons.prems(2) have "s = pre' @ r" by simp
    with rest show ?thesis by (rule Cons.IH)
  qed
qed

lemma patternMatch_alt:
  "patternMatch msg p g code opn \<longleftrightarrow>
     (\<exists>pre gap tail. msg = pre @ ''WebGL'' @ gap @ tail \<and> length pre = p \<and> length gap = g
        \<and> list_all (\<lambda>c. \<not> isLineTerminator c) gap \<and> matchTail tail = Some (code, opn))"
  by (simp add: patternMatch_def matchTail_iff)

lemma structuredMatch_sound:
  assumes "structuredMatch msg = Some (code, opn)"
  shows "\<exists>p g. patternMatch msg p g code opn \<and> firstMatch msg p g"
proof -
  from structuredMatch_Some_D [OF assms] obtain pre r where r: "msg = pre @ r"
    "matchFrom r = Some (code, opn)"
    and leftmost: "\<forall>pre' r'. msg = pre' @ r' \<and> length pre' < length pre \<longrightarrow> matchFrom r' = None"
    by blast
  from matchFrom_Some_D [OF r(2)] obtain gap tail where g: "r = ''WebGL'' @ gap @ tail"
    "list_all (\<lambda>c. \<not> isLineTerminator c) gap" "matchTail tail = Some (code, opn)"
    and shortest: "\<forall>gap' tail'. r = ''WebGL'' @ gap' @ tail' \<and> length gap' < length gap
        \<longrightarrow> matchTail tail' = None"
    by blast
  have m: "patternMatch msg (length pre) (length gap) code opn"
    unfolding patternMatch_alt using r(1) g by blast
  have "firstMatch msg (length pre) (length gap)"
    unfolding firstMatch_def
  proof (intro allI impI)
    fix p' g' code' opn'
    assume "patternMatch msg p' g' code' opn'"
    then obtain pre' gap' tail' where m': "msg = pre' @ ''WebGL'' @ gap' @ tail'"
      "length pre' = p'" "length gap' = g'" "list_all (\<lambda>c. \<not> isLineTerminator c) gap'"
      "matchTail tail' = Some (code', opn')"
      unfolding patternMatch_alt by blast
    have not_left: "\<not> p' < length pre"
    proof
      assume "p' < length pre"
      with m'(1,2) leftmost have "matchFrom (''WebGL'' @ gap' @ tail') = None" by blast
      then have "matchTail tail' = None"
        using m'(4) by (rule matchFrom_None_D [OF _ refl])
      with m'(5) show False by simp
    qed
    show "length pre < p' \<or> (length pre = p' \<and> length gap \<le> g')"
    proof (cases "length pre = p'")
      case False
      with not_left show ?thesis by simp
    next
      case True
      with m'(1,2) r(1) have "pre' = pre \<and> ''WebGL'' @ gap' @ tail' = r"
        by (metis append_eq_append_conv)
      then have r': "r = ''WebGL'' @ gap' @ tail'" by simp
      have "\<not> g' < length gap"
      proof
        assume "g' < length gap"
        with r' m'(3) shortest have "matchTail tail' = None" by blast
        with m'(5) show False by simp
      qed
      with True show ?thesis by simp
    qed
  qed
  with m show ?thesis by blast
qed

lemma structuredMatch_complete:
  assumes "patternMatch msg p g code opn"
  shows "structuredMatch msg \<noteq> None"
proof
  assume none: "structuredMatch msg = None"
  from assms obtain pre gap tail where m: "msg = pre @ ''WebGL'' @ gap @ tail"
    "list_all (\<lambda>c. \<not> isLineTerminator c) gap" "matchTail tail = Some (code, opn)"
    unfolding patternMatch_alt by blast
  from none m(1) have "matchFrom (''WebGL'' @ gap @ tail) = None"
    by (rule structuredMatch_None_D)
  then have "matchTail tail = None"
    using m(2) by (rule matchFrom_None_D [OF _ refl])
  with m(3) show False by simp
qed

lemma patternMatch_captures_unique:
  assumes "patternMatch msg p g code opn" and "patternMatch msg p g code' opn'"
  shows "code' = code \<and> opn' = opn"
proof -
  from assms(1) obtain pre gap tail where a: "msg = pre @ ''WebGL'' @ gap @ tail"
    "length pre = p" "length gap = g" "matchTail tail = Some (code, opn)"
    unfolding patternMatch_alt by blast
  from assms(2) obtain pre' gap' tail' where b: "msg = pre' @ ''WebGL'' @ gap' @ tail'"
    "length pre' = p" "length gap' = g" "matchTail tail' = Some (code', opn')"
    unfolding patternMatch_alt by blast
  from a(1,2) b(1,2) have "pre' = pre \<and> ''WebGL'' @ gap' @ tail' = ''WebGL'' @ gap @ tail"
    by (metis append_eq_append_conv)
  then have "gap' @ tail' = gap @ tail" by simp
  with a(3) b(3) have "tail' = tail" by (metis append_eq_append_conv)
  with a(4) b(4) show ?thesis by simp
qed

lemma structuredMatch_first:
  assumes "patternMatch msg p g code opn" and "firstMatch msg p g"
  shows "structuredMatch msg = Some (code, opn)"
proof -
  from structuredMatch_complete [OF assms(1)] obtain code' opn'
    where s: "structuredMatch msg = Some (code', opn')" by (cases "structuredMatch msg") auto
  from structuredMatch_sound [OF s] obtain p' g' where m': "patternMatch msg p' g' code' opn'"
    and f': "firstMatch msg p' g'" by blast
  from assms(2) m' have "p < p' \<or> (p = p' \<and> g \<le> g')"
    unfolding firstMatch_def by blast
  moreover from f' assms(1) have "p' < p \<or> (p' = p \<and> g' \<le> g)"
    unfolding firstMatch_def by blast
  ultimately have "p' = p \<and> g' = g" by auto
  with m' have "patternMatch msg p g code' opn'" by simp
  with assms(1) have "code' = code \<and> opn' = opn"
    by (rule patternMatch_captures_unique)
  with s show ?thesis by simp
qed

lemma structuredMatch_none_iff:
  "structuredMatch msg = None \<longleftrightarrow> (\<forall>p g code opn. \<not> patternMatch msg p g code opn)"
proof
  assume "structuredMatch msg = None"
  then show "\<forall>p g code opn. \<not> patternMatch msg p g code opn"
    using structuredMatch_complete by blast
next
  assume no: "\<forall>p g code opn. \<not> patternMatch msg p g code opn"
  show "structuredMatch msg = None"
  proof (cases "structuredMatch msg")
    case None
    then show ?thesis .
  next
    case (Some m)
    obtain code opn where "m = (code, opn)" by (cases m)
    with Some structuredMatch_sound no show ?thesis by blast
  qed
qed

lemma simpleMatch_first_run:
  assumes "list_all (\<lambda>c. \<not> isCodeChar c) pre" and "tok \<noteq> []" and "list_all isCodeChar tok"
    and "rest = [] \<or> \<not> isCodeChar (hd rest)"
  shows "simpleMatch (pre @ tok @ rest) = Some tok"
proof -
  have "\<not> (\<lambda>c. \<not> isCodeChar c) (hd (tok @ rest))"
    using assms(2,3) by (cases tok) auto
  then have "dropWhile (\<lambda>c. \<not> isCodeChar c) (pre @ tok @ rest) = tok @ rest"
    using dropWhile_run [OF assms(1), of "tok @ rest"] by simp
  moreover have "takeWhile isCodeChar (tok @ rest) = tok"
    using takeWhile_run [OF assms(3,4)] .
  ultimately show ?thesis
    using assms(2) by (simp add: simpleMatch_def)
qed

lemma simpleMatch_none:
  assumes "list_all (\<lambda>c. \<not> isCodeChar c) msg"
  shows "simpleMatch msg = None"
proof -
  have "dropWhile (\<lambda>c. \<not> isCodeChar c) msg = []"
    using assms by (simp add: list_all_iff)
  then show ?thesis by (simp add: simpleMatch_def del: dropWhile_eq_Nil_conv)
qed

lemma no_code_char_no_match:
  assumes "list_all (\<lambda>c. \<not> isCodeChar c) msg"
  shows "\<not> patternMatch msg p g code opn"
proof
  assume "patternMatch msg p g code opn"
  then obtain pre gap tail where "msg = pre @ ''WebGL'' @ gap @ tail"
    unfolding patternMatch_def by blast
  then have "CHR ''W'' \<in> set msg" by simp
  with assms have "\<not> isCodeChar CHR ''W''" by (simp add: list_all_iff)
  then show False by (simp add: isCodeChar_def)
qed

text \<open>
  Claim C6, as stated. A message that holds \<open>INVALID_OPERATION: drawElements\<close> without a
  preceding \<open>WebGL ... :\<close> gets the signature \<open>webgl:INVALID_OPERATION\<close>, not
  \<open>webgl:INVALID_OPERATION:drawElements\<close>; and the message the injected tracker produces,
  \<open>WebGL Error in drawElements: INVALID_OPERATION\<close>, falls back to \<open>webgl:W\<close>, the first run
  of capitals, although \<open>W\<close> is not an all-caps token of the message.
\<close>

theorem getErrorKey_pattern_counterexample:
  "getErrorKey (Runtime \<lparr>id_w = ''a'', message = ''INVALID_OPERATION: drawElements'',
       stackTrace = None, timestamp_w = 5, count = 1, url_w = None, functionName = None\<rparr>)
     = ''webgl:INVALID_OPERATION''
   \<and> getErrorKey (Runtime \<lparr>id_w = ''a'', message = ''INVALID_OPERATION: drawElements'',
       stackTrace = None, timestamp_w = 5, count = 1, url_w = None, functionName = None\<rparr>)
     \<noteq> ''webgl:INVALID_OPERATION:drawElements''
   \<and> getErrorKey (Runtime \<lparr>id_w = ''a'',
       message = ''WebGL Error in drawElements: INVALID_OPERATION'',
       stackTrace = None, timestamp_w = 5, count = 1, url_w = None, functionName = None\<rparr>)
     = ''webgl:W''"
  by (simp add: getErrorKey_def extractErrorType_def matchTail_def simpleMatch_def
      isSpaceChar_def isCodeChar_def isWordChar_def isLineTerminator_def)

text \<open>
  Claim C6, amended. For every runtime error whose message the pattern
  \<open>/WebGL.*?:\s*([A-Z_]+):\s*(\w+)/\<close> matches, wherever in the message, the signature is
  \<open>webgl:\<close> + code + \<open>:\<close> + operation, code and operation being the captures of the
  first match (leftmost \<open>WebGL\<close>, then nearest colon that works); such a first match
  exists as soon as there is any match. For a message the pattern does not match, the
  signature is \<open>webgl:\<close> + the first all-caps token when the first capital or underscore
  of the message begins a token made of capitals and underscores only, and
  \<open>webgl:UNKNOWN\<close> when the message has no capital and no underscore (the pattern then
  cannot match).
\<close>

theorem getErrorKey_runtime:
  "(patternMatch (message we) p g code opn \<and> firstMatch (message we) p g
      \<longrightarrow> getErrorKey (Runtime we) = ''webgl:'' @ code @ '':'' @ opn)
   \<and> ((\<exists>p g code opn. patternMatch (message we) p g code opn)
      \<longrightarrow> (\<exists>p g code opn. patternMatch (message we) p g code opn
             \<and> firstMatch (message we) p g
             \<and> getErrorKey (Runtime we) = ''webgl:'' @ code @ '':'' @ opn))
   \<and> ((\<forall>p g code opn. \<not> patternMatch (message we) p g code opn)
      \<and> message we = pre @ tok @ rest
      \<and> list_all (\<lambda>c. \<not> isCodeChar c) pre \<and> (pre = [] \<or> \<not> isWordChar (last pre))
      \<and> tok \<noteq> [] \<and> list_all isCodeChar tok
      \<and> (rest = [] \<or> \<not> isWordChar (hd rest))
      \<longrightarrow> getErrorKey (Runtime we) = ''webgl:'' @ tok)
   \<and> (list_all (\<lambda>c. \<not> isCodeChar c) (message we)
      \<longrightarrow> (\<forall>p g code opn. \<not> patternMatch (message we) p g code opn)
          \<and> getErrorKey (Runtime we) = ''webgl:UNKNOWN'')"
proof (intro conjI impI)
  assume "patternMatch (message we) p g code opn \<and> firstMatch (message we) p g"
  then have "structuredMatch (message we) = Some (code, opn)"
    using structuredMatch_first by blast
  then show "getErrorKey (Runtime we) = ''webgl:'' @ code @ '':'' @ opn"
    by (simp add: getErrorKey_def extractErrorType_def)
next
  assume "\<exists>p g code opn. patternMatch (message we) p g code opn"
  then have "structuredMatch (message we) \<noteq> None"
    using structuredMatch_complete by blast
  then obtain code' opn' where s: "structuredMatch (message we) = Some (code', opn')"
    by (cases "structuredMatch (message we)") auto
  from structuredMatch_sound [OF s] obtain p' g'
    where "patternMatch (message we) p' g' code' opn'" and "firstMatch (message we) p' g'"
    by blast
  moreover from s have "getErrorKey (Runtime we) = ''webgl:'' @ code' @ '':'' @ opn'"
    by (simp add: getErrorKey_def extractErrorType_def)
  ultimately show "\<exists>p g code opn. patternMatch (message we) p g code opn
             \<and> firstMatch (message we) p g
             \<and> getErrorKey (Runtime we) = ''webgl:'' @ code @ '':'' @ opn"
    by blast
next
  assume h: "(\<forall>p g code opn. \<not> patternMatch (message we) p g code opn)
      \<and> message we = pre @ tok @ rest
      \<and> list_all (\<lambda>c. \<not> isCodeChar c) pre \<and> (pre = [] \<or> \<not> isWordChar (last pre))
      \<and> tok \<noteq> [] \<and> list_all isCodeChar tok
      \<and> (rest = [] \<or> \<not> isWordChar (hd rest))"
  then have sm: "structuredMatch (message we) = None"
    using structuredMatch_none_iff by blast
  from h have "rest = [] \<or> \<not> isCodeChar (hd rest)"
    using code_is_word by blast
  with h have "simpleMatch (pre @ tok @ rest) = Some tok"
    using simpleMatch_first_run by blast
  with h have sp: "simpleMatch (message we) = Some tok"
    by simp
  from sm sp show "getErrorKey (Runtime we) = ''webgl:'' @ tok"
    by (simp add: getErrorKey_def extractErrorType_def)
next
  assume h: "list_all (\<lambda>c. \<not> isCodeChar c) (message we)"
  then show "\<forall>p g code opn. \<not> patternMatch (message we) p g code opn"
    using no_code_char_no_match by blast
next
  assume h: "list_all (\<lambda>c. \<not> isCodeChar c) (message we)"
  then have "\<forall>p g code opn. \<not> patternMatch (message we) p g code opn"
    using no_code_char_no_match by blast
  then have "structuredMatch (message we) = None"
    using structuredMatch_none_iff by blast
  moreover from h have "simpleMatch (message we) = None"
    by (rule simpleMatch_none)
  ultimately show "getErrorKey (Runtime we) = ''webgl:UNKNOWN''"
    by (simp add: getErrorKey_def extractErrorType_def)
qed

text \<open>
  Instances: a match that does not begin the message (\<open>xWebGL: A: b\<close>), a match behind a
  colon that does not work (\<open>WebGL: lost context; WebGL: INVALID_ENUM: getParameter: x\<close>),
  a message without a match whose first capital begins an all-caps token, and a message
  without capitals.
\<close>

theorem getErrorKey_runtime_witness:
  "getErrorKey (Runtime \<lparr>id_w = ''a'', message = ''xWebGL: A: b'',
       stackTrace = None, timestamp_w = 5, count = 1, url_w = None, functionName = None\<rparr>)
     = ''webgl:A:b''
   \<and> (\<exists>p g code opn.
         patternMatch ''WebGL: lost context; WebGL: INVALID_ENUM: getParameter: x'' p g code opn
         \<and> firstMatch ''WebGL: lost context; WebGL: INVALID_ENUM: getParameter: x'' p g
         \<and> getErrorKey (Runtime \<lparr>id_w = ''a'',
              message = ''WebGL: lost context; WebGL: INVALID_ENUM: getParameter: x'',
              stackTrace = None, timestamp_w = 5, count = 1, url_w = None,
              functionName = None\<rparr>)
            = ''webgl:'' @ code @ '':'' @ opn)
   \<and> getErrorKey (Runtime \<lparr>id_w = ''a'',
       message = ''WebGL: lost context; WebGL: INVALID_ENUM: getParameter: x'',
       stackTrace = None, timestamp_w = 5, count = 1, url_w = None, functionName = None\<rparr>)
     = ''webgl:INVALID_ENUM:getParameter''
   \<and> getErrorKey (Runtime \<lparr>id_w = ''a'', message = ''error: INVALID_VALUE in call'',
       stackTrace = None, timestamp_w = 5, count = 1, url_w = None, functionName = None\<rparr>)
     = ''webgl:INVALID_VALUE''
   \<and> getErrorKey (Runtime \<lparr>id_w = ''a'', message = ''context lost'',
       stackTrace = None, timestamp_w = 5, count = 1, url_w = None, functionName = None\<rparr>)
     = ''webgl:UNKNOWN''"
proof -
  let ?w1 = "\<lparr>id_w = ''a'', message = ''xWebGL: A: b'',
       stackTrace = None, timestamp_w = 5, count = 1, url_w = None, functionName = None\<rparr>"
  let ?m2 = "''WebGL: lost context; WebGL: INVALID_ENUM: getParameter: x''"
  let ?w2 = "\<lparr>id_w = ''a'', message = ?m2,
       stackTrace = None, timestamp_w = 5, count = 1, url_w = None, functionName = None\<rparr>"
  let ?w3 = "\<lparr>id_w = ''a'', message = ''error: INVALID_VALUE in call'',
       stackTrace = None, timestamp_w = 5, count = 1, url_w = None, functionName = None\<rparr>"
  let ?w4 = "\<lparr>id_w = ''a'', message = ''context lost'',
       stackTrace = None, timestamp_w = 5, count = 1, url_w = None, functionName = None\<rparr>"
  note classes = isSpaceChar_def isCodeChar_def isWordChar_def isLineTerminator_def

  have t1: "tailMatch '': A: b'' ''A'' ''b''"
    using matchTail_iff [of "'': A: b''" "''A''" "''b''"]
    by (simp add: matchTail_def classes)
  have "''xWebGL: A: b'' = ''x'' @ ''WebGL'' @ [] @ '': A: b'' \<and> length ''x'' = 1
      \<and> length ([]::string) = 0 \<and> list_all (\<lambda>c. \<not> isLineTerminator c) [] \<and>
      tailMatch '': A: b'' ''A'' ''b''"
    using t1 by simp
  then have m1: "patternMatch (message ?w1) 1 0 ''A'' ''b''"
    unfolding patternMatch_def by (simp only: WebGLError.simps) blast
  have nz: "\<And>p' g' cd opr. patternMatch ''xWebGL: A: b'' p' g' cd opr \<Longrightarrow> p' \<noteq> 0"
    unfolding patternMatch_def by auto
  have f1: "firstMatch (message ?w1) 1 0"
    unfolding firstMatch_def
  proof (intro allI impI)
    fix p' g' cd opr assume "patternMatch (message ?w1) p' g' cd opr"
    then have "p' \<noteq> 0" using nz by simp
    then show "1 < p' \<or> (1 = p' \<and> 0 \<le> g')" by auto
  qed
  have k1: "getErrorKey (Runtime ?w1) = ''webgl:'' @ ''A'' @ '':'' @ ''b''"
    using getErrorKey_runtime [of ?w1 1 0 "''A''" "''b''"] m1 f1 by blast

  have t2: "tailMatch '': INVALID_ENUM: getParameter: x'' ''INVALID_ENUM'' ''getParameter''"
    using matchTail_iff [of "'': INVALID_ENUM: getParameter: x''" "''INVALID_ENUM''"
        "''getParameter''"]
    by (simp add: matchTail_def classes)
  have "?m2 = ''WebGL: lost context; '' @ ''WebGL'' @ [] @ '': INVALID_ENUM: getParameter: x''
      \<and> length ''WebGL: lost context; '' = 21
      \<and> length ([]::string) = 0 \<and> list_all (\<lambda>c. \<not> isLineTerminator c) [] \<and>
      tailMatch '': INVALID_ENUM: getParameter: x'' ''INVALID_ENUM'' ''getParameter''"
    using t2 by simp
  then have "patternMatch ?m2 21 0 ''INVALID_ENUM'' ''getParameter''"
    unfolding patternMatch_def by blast
  then have some: "\<exists>p g code opn. patternMatch (message ?w2) p g code opn"
    by (simp only: WebGLError.simps) blast
  have k2: "\<exists>p g code opn. patternMatch (message ?w2) p g code opn
         \<and> firstMatch (message ?w2) p g
         \<and> getErrorKey (Runtime ?w2) = ''webgl:'' @ code @ '':'' @ opn"
    using getErrorKey_runtime [of ?w2] some by blast
  have e2: "getErrorKey (Runtime ?w2) = ''webgl:INVALID_ENUM:getParameter''"
    by (simp add: getErrorKey_def extractErrorType_def matchTail_def classes)

  have none3: "\<forall>p g code opn. \<not> patternMatch (message ?w3) p g code opn"
    using structuredMatch_none_iff [of "message ?w3"]
    by (simp add: matchTail_def classes)
  have h3: "message ?w3 = ''error: '' @ ''INVALID_VALUE'' @ '' in call''
      \<and> list_all (\<lambda>c. \<not> isCodeChar c) ''error: ''
      \<and> (''error: '' = [] \<or> \<not> isWordChar (last ''error: ''))
      \<and> ''INVALID_VALUE'' \<noteq> [] \<and> list_all isCodeChar ''INVALID_VALUE''
      \<and> ('' in call'' = [] \<or> \<not> isWordChar (hd '' in call''))"
    by (simp add: classes)
  have k3: "getErrorKey (Runtime ?w3) = ''webgl:'' @ ''INVALID_VALUE''"
    using getErrorKey_runtime [of ?w3 _ _ _ _ "''error: ''" "''INVALID_VALUE''" "'' in call''"]
      none3 h3
    by blast

  have h4: "list_all (\<lambda>c. \<not> isCodeChar c) (message ?w4)"
    by (simp add: isCodeChar_def)
  have k4: "getErrorKey (Runtime ?w4) = ''webgl:UNKNOWN''"
    using getErrorKey_runtime [of ?w4] h4 by blast
  from k1 k2 e2 k3 k4 show ?thesis
    by simp
qed

end
